theory Spec2Isabelle
  imports Main "HOL-Library.Sublist" "HOL-Library.AList"
begin

section \<open>Event model (pkg/models/types.go)\<close>

text \<open>
  A document (Go: \<open>map[string]interface{}\<close>) is kept as an association list from field
  names to rendered values; the server never looks inside one.
\<close>

type_synonym Doc = "(string \<times> string) list"

record ChangeEvent =
  ce_ID :: string
  ce_OperationType :: string
  ce_Database :: string
  ce_Collection :: string
  ce_DocumentKey :: Doc
  ce_FullDocument :: Doc

record SnapshotOptions =
  IncludeSnapshot :: bool
  SnapshotLimit :: int
  BatchSize :: int
  SnapshotFilter :: "Doc option"
  SnapshotSort :: "Doc option"

record ClientMessage =
  cm_Type :: string
  cm_Database :: string
  cm_Collection :: string
  cm_RequestID :: string
  cm_SubscriptionID :: string
  cm_SnapshotOptions :: "SnapshotOptions option"

record ServerMessage =
  sm_Type :: string
  sm_Change :: "ChangeEvent option"
  sm_Error :: string
  sm_ErrorCode :: int
  sm_RequestID :: string
  sm_Success :: bool
  sm_Data :: Doc
  sm_SnapshotData :: "Doc list"
  sm_SnapshotBatch :: int
  sm_SnapshotTotal :: int
  sm_SnapshotRemaining :: int

record Subscription =
  sub_ID :: string
  sub_ClientID :: string
  sub_Database :: string
  sub_Collection :: string
  sub_CreatedAt :: nat
  sub_SnapshotOptions :: "SnapshotOptions option"

record DatabaseConfig =
  Name :: string
  Collections :: "string list"

definition MessageTypeSubscribe :: string where "MessageTypeSubscribe = ''subscribe''"
definition MessageTypeUnsubscribe :: string where "MessageTypeUnsubscribe = ''unsubscribe''"
definition MessageTypeChange :: string where "MessageTypeChange = ''change''"
definition MessageTypeError :: string where "MessageTypeError = ''error''"
definition MessageTypePing :: string where "MessageTypePing = ''ping''"
definition MessageTypePong :: string where "MessageTypePong = ''pong''"
definition MessageTypeHealth :: string where "MessageTypeHealth = ''health''"
definition MessageTypeSnapshot :: string where "MessageTypeSnapshot = ''snapshot''"
definition MessageTypeSnapshotStart :: string where "MessageTypeSnapshotStart = ''snapshot_start''"
definition MessageTypeSnapshotEnd :: string where "MessageTypeSnapshotEnd = ''snapshot_end''"

text \<open>The zero value of \<open>models.ServerMessage\<close>: every composite literal of the source
  starts from it and sets a few fields.\<close>

definition zeroMessage :: ServerMessage where
  "zeroMessage = \<lparr> sm_Type = [], sm_Change = None, sm_Error = [], sm_ErrorCode = 0,
     sm_RequestID = [], sm_Success = False, sm_Data = [], sm_SnapshotData = [],
     sm_SnapshotBatch = 0, sm_SnapshotTotal = 0, sm_SnapshotRemaining = 0 \<rparr>"

section \<open>Buffered channels with non-blocking send\<close>

text \<open>
  A Go buffered channel: the pending elements in FIFO order, the capacity given to
  \<open>make\<close>, and whether \<open>close\<close> has been called. The statement
  \<open>select { case ch <- m: ... default: ... }\<close> has three outcomes: the element is
  appended, the default branch runs because the buffer is full, or the runtime panics
  because the channel is closed.
\<close>

record 'a chan =
  buf :: "'a list"
  cap :: nat
  chan_closed :: bool

datatype 'a send_result = Sent "'a chan" | WouldBlock | SendPanic

definition make_chan :: "nat \<Rightarrow> 'a chan" where
  "make_chan n = \<lparr> buf = [], cap = n, chan_closed = False \<rparr>"

definition nb_send :: "'a chan \<Rightarrow> 'a \<Rightarrow> 'a send_result" where
  "nb_send ch m =
     (if chan_closed ch then SendPanic
      else if length (buf ch) < cap ch then Sent (ch\<lparr> buf := buf ch @ [m] \<rparr>)
      else WouldBlock)"

text \<open>\<open>close(ch)\<close>: closing a closed channel panics (\<open>None\<close>).\<close>

definition close_chan :: "'a chan \<Rightarrow> 'a chan option" where
  "close_chan ch = (if chan_closed ch then None else Some (ch\<lparr> chan_closed := True \<rparr>))"

section \<open>Clients and the subscription validator\<close>

record Client =
  cl_ID :: string
  send :: "ServerMessage chan"
  subscriptions :: "(string \<times> Subscription) list"
  closed :: bool

text \<open>\<open>handleWebSocket\<close>: a new client has an outbound channel of capacity 1024 and
  no subscription.\<close>

definition newClient :: "string \<Rightarrow> Client" where
  "newClient uuid = \<lparr> cl_ID = uuid, send = make_chan 1024, subscriptions = [], closed = False \<rparr>"

text \<open>\<open>MultiDBManager.IsValidSubscription\<close>: the first configuration whose name is the
  database decides.\<close>

fun IsValidSubscription :: "DatabaseConfig list \<Rightarrow> string \<Rightarrow> string \<Rightarrow> bool" where
  "IsValidSubscription [] database collection = False"
| "IsValidSubscription (dbConfig # rest) database collection =
     (if Name dbConfig = database then
        (if length (Collections dbConfig) = 0 then True
         else if collection \<in> set (Collections dbConfig) then True
         else False)
      else IsValidSubscription rest database collection)"

section \<open>The document store and the snapshot streamer (pkg/sync/database.go)\<close>

text \<open>
  The store is an external collaborator. \<open>CountDocuments\<close> and \<open>Find\<close> may fail with
  an error text; a cursor yields its documents in order, and decoding any of them may fail.
  Go's \<open>int\<close> is modelled by \<open>int\<close>: every value the loop computes lies between the
  (negated) length of one batch and the limit.
\<close>

record Store =
  CountDocuments :: "string \<Rightarrow> Doc \<Rightarrow> string + int"
  Find :: "string \<Rightarrow> Doc \<Rightarrow> int \<Rightarrow> int \<Rightarrow> Doc option \<Rightarrow> string + (string + Doc) list"

text \<open>One invocation of the callback: batch, batch number, remaining, error.\<close>

type_synonym cb_call = "Doc list \<times> int \<times> int \<times> string option"

text \<open>The loop \<open>for cursor.Next(ctx) { cursor.Decode(&doc) ... }\<close>: the first document
  that fails to decode aborts the batch.\<close>

fun decode_batch :: "(string + Doc) list \<Rightarrow> string + Doc list" where
  "decode_batch [] = Inr []"
| "decode_batch (Inl e # rest) = Inl e"
| "decode_batch (Inr doc # rest) =
     (case decode_batch rest of Inl e \<Rightarrow> Inl e | Inr batch \<Rightarrow> Inr (doc # batch))"

definition effBatchSize :: "SnapshotOptions \<Rightarrow> int" where
  "effBatchSize snapOpts = (if BatchSize snapOpts \<le> 0 then 100 else BatchSize snapOpts)"

definition effLimit :: "SnapshotOptions \<Rightarrow> int" where
  "effLimit snapOpts = (if SnapshotLimit snapOpts \<le> 0 then 10000 else SnapshotLimit snapOpts)"

definition effFilter :: "SnapshotOptions \<Rightarrow> Doc" where
  "effFilter snapOpts = (case SnapshotFilter snapOpts of None \<Rightarrow> [] | Some f \<Rightarrow> f)"

definition currentBatchSize :: "int \<Rightarrow> int \<Rightarrow> int" where
  "currentBatchSize remaining batchSize = (if remaining < batchSize then remaining else batchSize)"

text \<open>
  The loop \<open>for remaining > 0 { ... }\<close> of \<open>Database.StreamSnapshot\<close>. Its only effect is
  to invoke the callback, which returns nothing, so the loop is the list of its callback
  invocations in order. The batch size is the local \<open>batchSize\<close>, fixed before the loop.
\<close>

function stream_loop ::
  "Store \<Rightarrow> string \<Rightarrow> SnapshotOptions \<Rightarrow> int \<Rightarrow> int \<Rightarrow> int \<Rightarrow> cb_call list" where
  "stream_loop st collection snapOpts skip batchNum remaining =
     (if remaining > 0 then
        (case Find st collection (effFilter snapOpts) skip
                (currentBatchSize remaining (effBatchSize snapOpts)) (SnapshotSort snapOpts) of
           Inl e \<Rightarrow> [([], batchNum, remaining, Some (''failed to find documents: '' @ e))]
         | Inr cursor \<Rightarrow>
             (case decode_batch cursor of
                Inl e \<Rightarrow> [([], batchNum, remaining, Some (''failed to decode document: '' @ e))]
              | Inr batch \<Rightarrow>
                  (batch, batchNum, remaining - int (length batch), None) #
                  (if int (length batch) < currentBatchSize remaining (effBatchSize snapOpts)
                   then []
                   else stream_loop st collection snapOpts (skip + int (length batch))
                          (batchNum + 1) (remaining - int (length batch)))))
      else [])"
  by pat_completeness auto
termination
  by (relation "measure (\<lambda>(st, collection, snapOpts, skip, batchNum, remaining). nat remaining)")
     (auto simp: currentBatchSize_def effBatchSize_def split: if_splits)

declare stream_loop.simps [simp del]

definition actualTotal :: "int \<Rightarrow> SnapshotOptions \<Rightarrow> int" where
  "actualTotal totalCount snapOpts =
     (if totalCount > effLimit snapOpts then effLimit snapOpts else totalCount)"

text \<open>\<open>Database.StreamSnapshot\<close>.\<close>

definition StreamSnapshot :: "Store \<Rightarrow> string \<Rightarrow> SnapshotOptions option \<Rightarrow> cb_call list" where
  "StreamSnapshot st collection snapOpts =
     (case snapOpts of
        None \<Rightarrow> [([], 0, 0, Some ''snapshot options are required'')]
      | Some opts \<Rightarrow>
          (case CountDocuments st collection (effFilter opts) of
             Inl e \<Rightarrow> [([], 0, 0, Some (''failed to count documents: '' @ e))]
           | Inr totalCount \<Rightarrow>
               stream_loop st collection opts 0 1 (actualTotal totalCount opts)))"

text \<open>\<open>MultiDBManager\<close> (the validator and snapshot streamer the server is wired with):
  its configuration and, per database name, the store handle of that database's manager.\<close>

record MultiDBManager =
  dbConfigs :: "DatabaseConfig list"
  managers :: "(string \<times> Store) list"

definition MultiDB_StreamSnapshot ::
  "MultiDBManager \<Rightarrow> string \<Rightarrow> string \<Rightarrow> SnapshotOptions option \<Rightarrow> cb_call list" where
  "MultiDB_StreamSnapshot m database collection snapOpts =
     (case map_of (managers m) database of
        None \<Rightarrow> [([], 0, 0,
                  Some (''database '' @ [CHR 0x27] @ database @ [CHR 0x27] @ '' is not configured''))]
      | Some st \<Rightarrow> StreamSnapshot st collection snapOpts)"

record WebSocketServer =
  validator :: "MultiDBManager option"
  snapshotStreamer :: "MultiDBManager option"

section \<open>Request handlers of a client (pkg/server/websocket.go)\<close>

text \<open>
  Every reply is enqueued with \<open>select { case c.send <- m: default: log }\<close>. The result
  is \<open>None\<close> when the send panics, otherwise whether the message was enqueued, and the
  client.
\<close>

definition enqueue :: "Client \<Rightarrow> ServerMessage \<Rightarrow> (bool \<times> Client) option" where
  "enqueue c m =
     (case nb_send (send c) m of
        SendPanic \<Rightarrow> None
      | WouldBlock \<Rightarrow> Some (False, c)
      | Sent ch \<Rightarrow> Some (True, c\<lparr> send := ch \<rparr>))"

definition invalidSubscriptionText :: "string \<Rightarrow> string \<Rightarrow> string" where
  "invalidSubscriptionText database collection =
     ''Invalid subscription: database '' @ [CHR 0x27] @ database @ [CHR 0x27] @
     '' collection '' @ [CHR 0x27] @ collection @ [CHR 0x27] @
     '' is not configured on the server''"

definition invalidSubscriptionResponse :: "ClientMessage \<Rightarrow> ServerMessage" where
  "invalidSubscriptionResponse message =
     zeroMessage\<lparr> sm_Type := MessageTypeError, sm_Success := False,
       sm_Error := invalidSubscriptionText (cm_Database message) (cm_Collection message),
       sm_RequestID := cm_RequestID message, sm_ErrorCode := 1 \<rparr>"

definition subscribeResponse :: "ClientMessage \<Rightarrow> string \<Rightarrow> ServerMessage" where
  "subscribeResponse message subscriptionID =
     zeroMessage\<lparr> sm_Type := MessageTypeSubscribe, sm_Success := True,
       sm_RequestID := cm_RequestID message,
       sm_Data := [(''subscription_id'', subscriptionID)] \<rparr>"

definition snapshotStartMsg :: ServerMessage where
  "snapshotStartMsg = zeroMessage\<lparr> sm_Type := MessageTypeSnapshotStart \<rparr>"

definition snapshotEndMsg :: ServerMessage where
  "snapshotEndMsg = zeroMessage\<lparr> sm_Type := MessageTypeSnapshotEnd \<rparr>"

definition snapshotErrorMsg :: "string \<Rightarrow> ServerMessage" where
  "snapshotErrorMsg err =
     zeroMessage\<lparr> sm_Type := MessageTypeError, sm_Error := ''Snapshot error: '' @ err \<rparr>"

definition snapshotBatchMsg :: "Doc list \<Rightarrow> int \<Rightarrow> int \<Rightarrow> ServerMessage" where
  "snapshotBatchMsg batch batchNum remaining =
     zeroMessage\<lparr> sm_Type := MessageTypeSnapshot, sm_SnapshotData := batch,
       sm_SnapshotBatch := batchNum, sm_SnapshotRemaining := remaining \<rparr>"

text \<open>The tail of the snapshot callback: \<open>if remaining == 0 { send snapshot_end }\<close>.\<close>

definition callback_end :: "Client \<Rightarrow> int \<Rightarrow> Client option" where
  "callback_end c remaining =
     (if remaining = 0 then
        (case enqueue c snapshotEndMsg of None \<Rightarrow> None | Some (ok, c') \<Rightarrow> Some c')
      else Some c)"

text \<open>The callback closure of \<open>handleSnapshot\<close>, as a transformer of the client it
  captured. A batch that cannot be enqueued makes the callback return.\<close>

fun callback :: "Client \<Rightarrow> cb_call \<Rightarrow> Client option" where
  "callback c (batch, batchNum, remaining, Some err) =
     (case enqueue c (snapshotErrorMsg err) of None \<Rightarrow> None | Some (ok, c') \<Rightarrow> Some c')"
| "callback c (batch, batchNum, remaining, None) =
     (if length batch > 0 then
        (case enqueue c (snapshotBatchMsg batch batchNum remaining) of
           None \<Rightarrow> None
         | Some (ok, c') \<Rightarrow> if ok then callback_end c' remaining else Some c')
      else callback_end c remaining)"

text \<open>The goroutine started by \<open>handleSnapshot\<close>, run without interference from other
  goroutines: the callback invocations one after the other.\<close>

fun run_callbacks :: "Client \<Rightarrow> cb_call list \<Rightarrow> Client option" where
  "run_callbacks c [] = Some c"
| "run_callbacks c (call # calls) =
     (case callback c call of None \<Rightarrow> None | Some c' \<Rightarrow> run_callbacks c' calls)"

text \<open>
  \<open>handleSnapshot\<close>: the synchronous part, and the callback invocations of the goroutine
  it starts (\<open>None\<close> when it starts none).
\<close>

definition handleSnapshot ::
  "WebSocketServer option \<Rightarrow> Client \<Rightarrow> Subscription \<Rightarrow> (Client \<times> cb_call list option) option" where
  "handleSnapshot wsServer c subscription =
     (case (case wsServer of None \<Rightarrow> None | Some ws \<Rightarrow> snapshotStreamer ws) of
        None \<Rightarrow> Some (c, None)
      | Some streamer \<Rightarrow>
          (case enqueue c snapshotStartMsg of
             None \<Rightarrow> None
           | Some (ok, c') \<Rightarrow>
               if ok then
                 Some (c', Some (MultiDB_StreamSnapshot streamer (sub_Database subscription)
                                   (sub_Collection subscription) (sub_SnapshotOptions subscription)))
               else Some (c', None)))"

definition rejectedByValidator :: "WebSocketServer option \<Rightarrow> string \<Rightarrow> string \<Rightarrow> bool" where
  "rejectedByValidator wsServer database collection =
     (case wsServer of
        None \<Rightarrow> False
      | Some ws \<Rightarrow>
          (case validator ws of
             None \<Rightarrow> False
           | Some v \<Rightarrow> \<not> IsValidSubscription (dbConfigs v) database collection))"

definition wantsSnapshot :: "Subscription \<Rightarrow> bool" where
  "wantsSnapshot subscription =
     (case sub_SnapshotOptions subscription of None \<Rightarrow> False | Some opts \<Rightarrow> IncludeSnapshot opts)"

text \<open>\<open>handleSubscribe\<close>; \<open>uuid\<close> is the value of \<open>uuid.New().String()\<close> and \<open>now\<close>
  that of \<open>time.Now()\<close>.\<close>

definition handleSubscribe ::
  "WebSocketServer option \<Rightarrow> string \<Rightarrow> nat \<Rightarrow> Client \<Rightarrow> ClientMessage
     \<Rightarrow> (Client \<times> cb_call list option) option" where
  "handleSubscribe wsServer uuid now c message =
     (if rejectedByValidator wsServer (cm_Database message) (cm_Collection message) then
        (case enqueue c (invalidSubscriptionResponse message) of
           None \<Rightarrow> None
         | Some (ok, c') \<Rightarrow> Some (c', None))
      else
        (let subscription = \<lparr> sub_ID = uuid, sub_ClientID = cl_ID c,
               sub_Database = cm_Database message, sub_Collection = cm_Collection message,
               sub_CreatedAt = now, sub_SnapshotOptions = cm_SnapshotOptions message \<rparr>;
             c1 = c\<lparr> subscriptions := AList.update (sub_ID subscription) subscription (subscriptions c) \<rparr>
         in case enqueue c1 (subscribeResponse message (sub_ID subscription)) of
              None \<Rightarrow> None
            | Some (ok, c2) \<Rightarrow>
                if wantsSnapshot subscription then handleSnapshot wsServer c2 subscription
                else Some (c2, None)))"

definition unsubscribeResponse :: "ClientMessage \<Rightarrow> bool \<Rightarrow> string \<Rightarrow> ServerMessage" where
  "unsubscribeResponse message success errorMsg =
     (let response = zeroMessage\<lparr> sm_Type := MessageTypeUnsubscribe, sm_Success := success,
                       sm_RequestID := cm_RequestID message \<rparr>
      in if \<not> success \<and> errorMsg \<noteq> [] then response\<lparr> sm_Error := errorMsg \<rparr> else response)"

definition handleUnsubscribe :: "Client \<Rightarrow> ClientMessage \<Rightarrow> Client option" where
  "handleUnsubscribe c message =
     (let (c1, success, errorMsg) =
            (if cm_SubscriptionID message \<noteq> [] then
               (case map_of (subscriptions c) (cm_SubscriptionID message) of
                  Some sub \<Rightarrow>
                    (c\<lparr> subscriptions := AList.delete (cm_SubscriptionID message) (subscriptions c) \<rparr>,
                     True, [])
                | None \<Rightarrow> (c, False, ''Subscription not found''))
             else (c\<lparr> subscriptions := [] \<rparr>, True, []))
      in case enqueue c1 (unsubscribeResponse message success errorMsg) of
           None \<Rightarrow> None
         | Some (ok, c2) \<Rightarrow> Some c2)"

definition handlePing :: "Client \<Rightarrow> ClientMessage \<Rightarrow> Client option" where
  "handlePing c message =
     (case enqueue c (zeroMessage\<lparr> sm_Type := MessageTypePong, sm_RequestID := cm_RequestID message \<rparr>) of
        None \<Rightarrow> None
      | Some (ok, c') \<Rightarrow> Some c')"

text \<open>\<open>handleHealthWS\<close>; \<open>timestamp\<close> is the formatted \<open>time.Now()\<close>.\<close>

definition handleHealthWS :: "string \<Rightarrow> Client \<Rightarrow> ClientMessage \<Rightarrow> Client option" where
  "handleHealthWS timestamp c message =
     (case enqueue c (zeroMessage\<lparr> sm_Type := MessageTypeHealth, sm_Success := True,
                        sm_RequestID := cm_RequestID message,
                        sm_Data := [(''status'', ''ok''), (''timestamp'', timestamp)] \<rparr>) of
        None \<Rightarrow> None
      | Some (ok, c') \<Rightarrow> Some c')"

text \<open>\<open>handleMessage\<close>: dispatch on the message type; an unknown type is logged only.\<close>

definition handleMessage ::
  "WebSocketServer option \<Rightarrow> string \<Rightarrow> nat \<Rightarrow> string \<Rightarrow> Client \<Rightarrow> ClientMessage
     \<Rightarrow> (Client \<times> cb_call list option) option" where
  "handleMessage wsServer uuid now timestamp c message =
     (if cm_Type message = MessageTypeSubscribe then handleSubscribe wsServer uuid now c message
      else if cm_Type message = MessageTypeUnsubscribe then
        map_option (\<lambda>c'. (c', None)) (handleUnsubscribe c message)
      else if cm_Type message = MessageTypePing then
        map_option (\<lambda>c'. (c', None)) (handlePing c message)
      else if cm_Type message = MessageTypeHealth then
        map_option (\<lambda>c'. (c', None)) (handleHealthWS timestamp c message)
      else Some (c, None))"

text \<open>The messages a handler appended to the outbound queue of the client.\<close>

definition replies :: "Client \<Rightarrow> Client \<Rightarrow> ServerMessage list" where
  "replies c c' = drop (length (buf (send c))) (buf (send c'))"

section \<open>The hub (pkg/server/websocket.go)\<close>

text \<open>
  \<open>Hub.clients\<close> is a map keyed by client pointers. A pointer is an address, the client
  objects live in \<open>heap\<close>, and \<open>clients\<close> lists the keys of the map in the order in which
  \<open>range\<close> visits them (any order is possible in Go, and the theorems hold for each).
\<close>

record Hub =
  clients :: "nat list"
  heap :: "nat \<Rightarrow> Client"

definition subscriptionMatches :: "Subscription \<Rightarrow> ChangeEvent \<Rightarrow> bool" where
  "subscriptionMatches sub change =
     (sub_Database sub = ce_Database change \<and>
      (sub_Collection sub = [] \<or> sub_Collection sub = ce_Collection change))"

definition isClientSubscribed :: "Client \<Rightarrow> ServerMessage \<Rightarrow> bool" where
  "isClientSubscribed client message =
     (case sm_Change message of
        None \<Rightarrow> True
      | Some change \<Rightarrow>
          if length (subscriptions client) = 0 then False
          else list_ex (\<lambda>(k, sub). subscriptionMatches sub change) (subscriptions client))"

definition set_send :: "Hub \<Rightarrow> nat \<Rightarrow> ServerMessage chan \<Rightarrow> Hub" where
  "set_send h client ch = h\<lparr> heap := (heap h)(client := (heap h client)\<lparr> send := ch \<rparr>) \<rparr>"

definition delete_client :: "Hub \<Rightarrow> nat \<Rightarrow> Hub" where
  "delete_client h client = h\<lparr> clients := removeAll client (clients h) \<rparr>"

text \<open>
  The broadcast case of \<open>Hub.run\<close>: \<open>for client := range h.clients\<close>. An entry deleted
  during the iteration is not visited later, hence the membership test. \<open>None\<close> is a
  panic of the hub goroutine.
\<close>

fun broadcast_loop :: "nat list \<Rightarrow> ServerMessage \<Rightarrow> Hub \<Rightarrow> Hub option" where
  "broadcast_loop [] message h = Some h"
| "broadcast_loop (client # rest) message h =
     (if client \<in> set (clients h) \<and> isClientSubscribed (heap h client) message then
        (case nb_send (send (heap h client)) message of
           Sent ch \<Rightarrow> broadcast_loop rest message (set_send h client ch)
         | WouldBlock \<Rightarrow>
             (case close_chan (send (heap h client)) of
                None \<Rightarrow> None
              | Some ch \<Rightarrow> broadcast_loop rest message (delete_client (set_send h client ch) client))
         | SendPanic \<Rightarrow> None)
      else broadcast_loop rest message h)"

definition hub_broadcast :: "Hub \<Rightarrow> ServerMessage \<Rightarrow> Hub option" where
  "hub_broadcast h message = broadcast_loop (clients h) message h"

definition hub_register :: "Hub \<Rightarrow> nat \<Rightarrow> Hub" where
  "hub_register h client = h\<lparr> clients := List.insert client (clients h) \<rparr>"

definition hub_unregister :: "Hub \<Rightarrow> nat \<Rightarrow> Hub option" where
  "hub_unregister h client =
     (if client \<in> set (clients h) then
        (case close_chan (send (heap h client)) of
           None \<Rightarrow> None
         | Some ch \<Rightarrow> Some (set_send (delete_client h client) client ch))
      else Some h)"

text \<open>\<open>Hub.run\<close>: the events arriving on the three channels, handled one at a time.\<close>

datatype hub_event = Register nat | Unregister nat | Broadcast ServerMessage

fun hub_handle :: "Hub \<Rightarrow> hub_event \<Rightarrow> Hub option" where
  "hub_handle h (Register client) = Some (hub_register h client)"
| "hub_handle h (Unregister client) = hub_unregister h client"
| "hub_handle h (Broadcast message) = hub_broadcast h message"

fun run :: "Hub \<Rightarrow> hub_event list \<Rightarrow> Hub option" where
  "run h [] = Some h"
| "run h (ev # evs) = (case hub_handle h ev of None \<Rightarrow> None | Some h' \<Rightarrow> run h' evs)"

text \<open>\<open>WebSocketServer.BroadcastChange\<close>: the message placed on \<open>hub.broadcast\<close> for a
  change event pointer (\<open>None\<close> is the nil pointer).\<close>

definition changeMessage :: "ChangeEvent option \<Rightarrow> ServerMessage" where
  "changeMessage change = zeroMessage\<lparr> sm_Type := MessageTypeChange, sm_Change := change \<rparr>"

definition BroadcastChange :: "Hub \<Rightarrow> ChangeEvent option \<Rightarrow> Hub option" where
  "BroadcastChange h change = hub_broadcast h (changeMessage change)"

section \<open>The server as interleaved goroutines\<close>

text \<open>
  The goroutines of the server, one atomic step at a time. Per database there is an
  ingestor (\<open>Database.processChangeStream\<close>, filling the buffered channel \<open>changesCh\<close> of
  capacity 100 and dropping the event when it is full) and a forwarder
  (\<open>Manager.processChangeEvents\<close>, which takes one event from \<open>changesCh\<close> and blocks in
  \<open>BroadcastChange\<close> until the hub has received it). Per client there are the reader
  (\<open>readPump\<close>, running the request handlers), the writer (\<open>writePump\<close>, which takes the
  next message from \<open>send\<close> and writes it to the connection) and the snapshot goroutines
  started by \<open>handleSnapshot\<close>, each with the callback invocations it still has to make.

  The database names of the configuration are taken to be distinct, so that there is one
  ingestor per database name (\<open>MultiDBManager.managers\<close> is keyed by the name). The
  change stream opened on a database yields the changes of that database only, so an
  event parsed by an ingestor belongs to the ingestor of \<open>ce_Database\<close> of the event.
  The fields \<open>produced\<close>, \<open>forwarded\<close> and \<open>received\<close> record history and influence no
  step: the events each ingestor parsed, those each forwarder handed to the hub, and the
  messages each writer wrote to its connection.
\<close>

record System =
  hub :: Hub
  next_ref :: nat
  tasks :: "(nat \<times> cb_call list) list"
  changesCh :: "string \<Rightarrow> ChangeEvent chan"
  pending :: "string \<Rightarrow> ChangeEvent option"
  produced :: "string \<Rightarrow> ChangeEvent list"
  forwarded :: "string \<Rightarrow> ChangeEvent list"
  received :: "nat \<Rightarrow> ServerMessage list"

definition initial :: System where
  "initial = \<lparr> hub = \<lparr> clients = [], heap = (\<lambda>r. newClient []) \<rparr>, next_ref = 0, tasks = [],
     changesCh = (\<lambda>db. make_chan 100), pending = (\<lambda>db. None), produced = (\<lambda>db. []),
     forwarded = (\<lambda>db. []), received = (\<lambda>r. []) \<rparr>"

text \<open>
  The steps: an ingestor parses an event (\<open>Ingest\<close>); the forwarder of a database takes
  the next event from \<open>changesCh\<close> (\<open>Take\<close>) and hands it to the hub, which runs its
  broadcast case (\<open>Deliver\<close>); \<open>handleWebSocket\<close> creates a client and the hub
  registers it (\<open>Connect\<close>); a reader exits and the hub unregisters its client
  (\<open>Disconnect\<close>); a reader handles one request (\<open>Request\<close>, with the generated uuid
  and the clock values); the \<open>i\<close>-th snapshot goroutine makes its next callback
  invocation (\<open>SnapshotCall\<close>); a writer writes the next message of its queue to the
  connection (\<open>Write\<close>). \<open>perform\<close> is \<open>None\<close> when the step cannot be taken in
  the state or panics.
\<close>

datatype action =
    Ingest ChangeEvent
  | Take string
  | Deliver string
  | Connect string
  | Disconnect nat
  | Request nat string nat string ClientMessage
  | SnapshotCall nat
  | Write nat

definition set_client :: "System \<Rightarrow> nat \<Rightarrow> Client \<Rightarrow> System" where
  "set_client s client c = s\<lparr> hub := (hub s)\<lparr> heap := (heap (hub s))(client := c) \<rparr> \<rparr>"

fun perform :: "WebSocketServer option \<Rightarrow> System \<Rightarrow> action \<Rightarrow> System option" where
  "perform wsServer s (Ingest change) =
     (let db = ce_Database change;
          s' = s\<lparr> produced := (produced s)(db := produced s db @ [change]) \<rparr>
      in case nb_send (changesCh s db) change of
           Sent ch \<Rightarrow> Some (s'\<lparr> changesCh := (changesCh s)(db := ch) \<rparr>)
         | WouldBlock \<Rightarrow> Some s'
         | SendPanic \<Rightarrow> None)"
| "perform wsServer s (Take db) =
     (case (buf (changesCh s db), pending s db) of
        (change # rest, None) \<Rightarrow>
          Some (s\<lparr> changesCh := (changesCh s)(db := (changesCh s db)\<lparr> buf := rest \<rparr>),
                  pending := (pending s)(db := Some change) \<rparr>)
      | _ \<Rightarrow> None)"
| "perform wsServer s (Deliver db) =
     (case pending s db of
        None \<Rightarrow> None
      | Some change \<Rightarrow>
          (case BroadcastChange (hub s) (Some change) of
             None \<Rightarrow> None
           | Some h' \<Rightarrow>
               Some (s\<lparr> hub := h', pending := (pending s)(db := None),
                       forwarded := (forwarded s)(db := forwarded s db @ [change]) \<rparr>)))"
| "perform wsServer s (Connect uuid) =
     Some ((set_client s (next_ref s) (newClient uuid))
             \<lparr> hub := hub_register (hub (set_client s (next_ref s) (newClient uuid))) (next_ref s),
               next_ref := Suc (next_ref s) \<rparr>)"
| "perform wsServer s (Disconnect client) =
     (case hub_unregister (hub s) client of None \<Rightarrow> None | Some h' \<Rightarrow> Some (s\<lparr> hub := h' \<rparr>))"
| "perform wsServer s (Request client uuid now timestamp message) =
     (case handleMessage wsServer uuid now timestamp (heap (hub s) client) message of
        None \<Rightarrow> None
      | Some (c', spawned) \<Rightarrow>
          Some ((set_client s client c')
                  \<lparr> tasks := (case spawned of None \<Rightarrow> tasks s
                              | Some calls \<Rightarrow> tasks s @ [(client, calls)]) \<rparr>))"
| "perform wsServer s (SnapshotCall i) =
     (if i < length (tasks s) then
        (case tasks s ! i of
           (client, []) \<Rightarrow> None
         | (client, call # calls) \<Rightarrow>
             (case callback (heap (hub s) client) call of
                None \<Rightarrow> None
              | Some c' \<Rightarrow> Some ((set_client s client c')\<lparr> tasks := (tasks s)[i := (client, calls)] \<rparr>)))
      else None)"
| "perform wsServer s (Write client) =
     (case buf (send (heap (hub s) client)) of
        [] \<Rightarrow> None
      | message # rest \<Rightarrow>
          Some ((set_client s client ((heap (hub s) client)\<lparr> send := (send (heap (hub s) client))\<lparr> buf := rest \<rparr> \<rparr>))
                  \<lparr> received := (received s)(client := received s client @ [message]) \<rparr>))"

fun exec :: "WebSocketServer option \<Rightarrow> System \<Rightarrow> action list \<Rightarrow> System option" where
  "exec wsServer s [] = Some s"
| "exec wsServer s (a # as) =
     (case perform wsServer s a of None \<Rightarrow> None | Some s' \<Rightarrow> exec wsServer s' as)"

text \<open>The change events carried by a list of messages, in order.\<close>

fun changes :: "ServerMessage list \<Rightarrow> ChangeEvent list" where
  "changes [] = []"
| "changes (m # ms) =
     (case sm_Change m of None \<Rightarrow> changes ms | Some change \<Rightarrow> change # changes ms)"


section \<open>Sessions, invariants and measures used in the statements\<close>

text \<open>The whole session of a subscribe request on one client with no other goroutine
  interfering: the handler, then every callback invocation of the goroutine it started.
  The result is the list of messages enqueued for the client.\<close>

definition session ::
  "WebSocketServer option \<Rightarrow> string \<Rightarrow> nat \<Rightarrow> Client \<Rightarrow> ClientMessage \<Rightarrow> ServerMessage list option" where
  "session wsServer uuid now c message =
     (case handleSubscribe wsServer uuid now c message of
        None \<Rightarrow> None
      | Some (c', None) \<Rightarrow> Some (replies c c')
      | Some (c', Some calls) \<Rightarrow> map_option (replies c) (run_callbacks c' calls))"

text \<open>Every registered client has an open outbound channel: the hub closes a channel
  only together with removing its client.\<close>

definition hub_ok :: "Hub \<Rightarrow> bool" where
  "hub_ok h = (\<forall>client \<in> set (clients h). \<not> chan_closed (send (heap h client)))"


definition in_flight :: "System \<Rightarrow> string \<Rightarrow> ChangeEvent list" where
  "in_flight s db =
     forwarded s db @ (case pending s db of None \<Rightarrow> [] | Some change \<Rightarrow> [change]) @ buf (changesCh s db)"




text \<open>Every subscription a client holds is for a pair the validator accepts.\<close>

definition subscriptions_valid :: "MultiDBManager \<Rightarrow> Client \<Rightarrow> bool" where
  "subscriptions_valid v c =
     list_all (\<lambda>(id, sub). IsValidSubscription (dbConfigs v) (sub_Database sub) (sub_Collection sub))
       (subscriptions c)"

section \<open>Concrete stores, servers, clients and runs\<close>

text \<open>
  A store that holds a fixed list of matching documents in sort order (\<open>Find\<close> returns
  the window \<open>[skip, skip + limit)\<close> of it), and a store whose every operation fails.
  The server \<open>serverA\<close> is wired as in \<open>main\<close>: one \<open>MultiDBManager\<close>, configured
  with database \<open>A\<close> and collection \<open>x\<close>, is both validator and snapshot streamer.
\<close>

definition listStore :: "Doc list \<Rightarrow> Store" where
  "listStore docs =
     \<lparr> CountDocuments = (\<lambda>collection flt. Inr (int (length docs))),
       Find = (\<lambda>collection flt skip limit srt. Inr (map Inr (take (nat limit) (drop (nat skip) docs)))) \<rparr>"

definition failingStore :: Store where
  "failingStore =
     \<lparr> CountDocuments = (\<lambda>collection flt. Inl ''connection reset''),
       Find = (\<lambda>collection flt skip limit srt. Inl ''connection reset'') \<rparr>"

definition doc1 :: Doc where "doc1 = [(''_id'', ''1'')]"
definition doc2 :: Doc where "doc2 = [(''_id'', ''2'')]"
definition doc3 :: Doc where "doc3 = [(''_id'', ''3'')]"

definition managerA :: "Store \<Rightarrow> MultiDBManager" where
  "managerA st = \<lparr> dbConfigs = [\<lparr> Name = ''A'', Collections = [''x''] \<rparr>], managers = [(''A'', st)] \<rparr>"

definition serverA :: "Store \<Rightarrow> WebSocketServer" where
  "serverA st = \<lparr> validator = Some (managerA st), snapshotStreamer = Some (managerA st) \<rparr>"

definition liveServer :: "WebSocketServer option" where
  "liveServer = Some (serverA (listStore []))"

definition batch2 :: SnapshotOptions where
  "batch2 = \<lparr> IncludeSnapshot = True, SnapshotLimit = 0, BatchSize = 2,
              SnapshotFilter = None, SnapshotSort = None \<rparr>"

definition subscribeSnapshot :: ClientMessage where
  "subscribeSnapshot = \<lparr> cm_Type = ''subscribe'', cm_Database = ''A'', cm_Collection = ''x'',
     cm_RequestID = ''r4'', cm_SubscriptionID = [], cm_SnapshotOptions = Some batch2 \<rparr>"

definition subscribeBy :: ClientMessage where
  "subscribeBy = \<lparr> cm_Type = ''subscribe'', cm_Database = ''B'', cm_Collection = ''y'',
     cm_RequestID = ''r2'', cm_SubscriptionID = [], cm_SnapshotOptions = None \<rparr>"

definition subscribeAx :: ClientMessage where
  "subscribeAx = \<lparr> cm_Type = ''subscribe'', cm_Database = ''A'', cm_Collection = ''x'',
     cm_RequestID = ''r3'', cm_SubscriptionID = [], cm_SnapshotOptions = None \<rparr>"

definition pingMsg :: ClientMessage where
  "pingMsg = \<lparr> cm_Type = ''ping'', cm_Database = [], cm_Collection = [],
     cm_RequestID = ''r1'', cm_SubscriptionID = [], cm_SnapshotOptions = None \<rparr>"

definition subscriptionA :: Subscription where
  "subscriptionA = \<lparr> sub_ID = ''s1'', sub_ClientID = ''c1'', sub_Database = ''A'',
     sub_Collection = [], sub_CreatedAt = 0, sub_SnapshotOptions = None \<rparr>"

definition subscriptionSnapshot :: Subscription where
  "subscriptionSnapshot = \<lparr> sub_ID = ''u1'', sub_ClientID = ''c1'', sub_Database = ''A'',
     sub_Collection = ''x'', sub_CreatedAt = 0, sub_SnapshotOptions = Some batch2 \<rparr>"

definition eventA1 :: ChangeEvent where
  "eventA1 = \<lparr> ce_ID = ''e1'', ce_OperationType = ''insert'', ce_Database = ''A'',
     ce_Collection = ''x'', ce_DocumentKey = [(''_id'', ''d1'')],
     ce_FullDocument = [(''_id'', ''d1''), (''n'', ''1'')] \<rparr>"

definition eventA2 :: ChangeEvent where
  "eventA2 = \<lparr> ce_ID = ''e2'', ce_OperationType = ''delete'', ce_Database = ''A'',
     ce_Collection = ''x'', ce_DocumentKey = [(''_id'', ''d1'')], ce_FullDocument = [] \<rparr>"

text \<open>
  Clients whose writer is behind: \<open>busyClient n\<close> has \<open>n\<close> unwritten pong replies in
  its queue of capacity 1024, \<open>queuedClient ms\<close> holds the subscription created by
  \<open>subscribeSnapshot\<close> and the queue \<open>ms\<close>.
\<close>

definition pongMsg :: ServerMessage where
  "pongMsg = zeroMessage\<lparr> sm_Type := MessageTypePong \<rparr>"

definition busyClient :: "nat \<Rightarrow> Client" where
  "busyClient n = (newClient ''c1'')\<lparr> send := \<lparr> buf = replicate n pongMsg, cap = 1024, chan_closed = False \<rparr> \<rparr>"

definition queuedClient :: "ServerMessage list \<Rightarrow> Client" where
  "queuedClient ms = \<lparr> cl_ID = ''c1'', send = \<lparr> buf = ms, cap = 1024, chan_closed = False \<rparr>,
      subscriptions = [(''u1'', subscriptionSnapshot)], closed = False \<rparr>"

definition slowHub :: Hub where
  "slowHub = \<lparr> clients = [0],
     heap = (\<lambda>r. (busyClient 1024)\<lparr> subscriptions := [(''s1'', subscriptionA)] \<rparr>) \<rparr>"


definition busySystem :: System where
  "busySystem = initial\<lparr> hub := \<lparr> clients = [0], heap = (\<lambda>r. busyClient 1022) \<rparr>, next_ref := 1 \<rparr>"

definition stalledSystem :: System where
  "stalledSystem = initial\<lparr> hub := \<lparr> clients = [0], heap = (\<lambda>r. busyClient 1024) \<rparr>, next_ref := 1,
     tasks := [(0, [([doc1, doc2], 1, 1, None), ([doc3], 2, 0, None)])] \<rparr>"

text \<open>
  Runs of the server. \<open>liveRun\<close>: a client connects and subscribes to \<open>A.x\<close>, two
  changes are ingested, the first is delivered and written. \<open>overflowRun1\<close> and
  \<open>overflowRun2\<close>: a client with 1022 unwritten replies subscribes with a snapshot; the
  first batch finds the queue full, the writer then writes two messages, and the task
  goes on with the second batch.
\<close>

definition liveRun :: "action list" where
  "liveRun = [Connect ''c1'', Request 0 ''u1'' 0 ''t0'' subscribeAx, Ingest eventA1, Ingest eventA2,
     Take ''A'', Deliver ''A'', Take ''A'', Write 0, Write 0]"

definition overflowRun1 :: "action list" where
  "overflowRun1 = [Request 0 ''u1'' 0 ''t0'' subscribeSnapshot]"

definition overflowRun2 :: "action list" where
  "overflowRun2 = [SnapshotCall 0, Write 0, Write 0, SnapshotCall 0]"

section \<open>Auxiliary lemmas\<close>

lemmas MessageType_defs =
  MessageTypeSubscribe_def MessageTypeUnsubscribe_def MessageTypeChange_def
  MessageTypeError_def MessageTypePing_def MessageTypePong_def MessageTypeHealth_def
  MessageTypeSnapshot_def MessageTypeSnapshotStart_def MessageTypeSnapshotEnd_def

subsection \<open>Channels and replies\<close>

lemma enqueue_eq_Some:
  "enqueue c m = Some (ok, c') \<longleftrightarrow>
     \<not> chan_closed (send c) \<and> ok = (length (buf (send c)) < cap (send c)) \<and>
     c' = (if ok then c\<lparr> send := (send c)\<lparr> buf := buf (send c) @ [m] \<rparr> \<rparr> else c)"
  by (auto simp: enqueue_def nb_send_def)

lemma nb_send_Sent:
  "nb_send ch m = Sent ch' \<longleftrightarrow>
     \<not> chan_closed ch \<and> length (buf ch) < cap ch \<and> ch' = ch\<lparr> buf := buf ch @ [m] \<rparr>"
  by (auto simp: nb_send_def)

lemma nb_send_WouldBlock:
  "nb_send ch m = WouldBlock \<longleftrightarrow> \<not> chan_closed ch \<and> \<not> length (buf ch) < cap ch"
  by (auto simp: nb_send_def)

lemma close_chan_Some:
  "close_chan ch = Some ch' \<longleftrightarrow> \<not> chan_closed ch \<and> ch' = ch\<lparr> chan_closed := True \<rparr>"
  by (auto simp: close_chan_def)

lemma reply_fields:
  "sm_RequestID (invalidSubscriptionResponse message) = cm_RequestID message"
  "sm_RequestID (subscribeResponse message uuid) = cm_RequestID message"
  "sm_RequestID (unsubscribeResponse message success errorMsg) = cm_RequestID message"
  "sm_Change (invalidSubscriptionResponse message) = None"
  "sm_Change (subscribeResponse message uuid) = None"
  "sm_Change (unsubscribeResponse message success errorMsg) = None"
  "sm_Change snapshotStartMsg = None"
  "sm_Change snapshotEndMsg = None"
  "sm_Change (snapshotErrorMsg err) = None"
  "sm_Change (snapshotBatchMsg batch batchNum remaining) = None"
  "sm_RequestID snapshotStartMsg = []"
  "sm_RequestID snapshotEndMsg = []"
  "sm_RequestID (snapshotErrorMsg err) = []"
  "sm_RequestID (snapshotBatchMsg batch batchNum remaining) = []"
  "sm_Type (invalidSubscriptionResponse message) = MessageTypeError"
  "sm_Type (subscribeResponse message uuid) = MessageTypeSubscribe"
  "sm_ErrorCode (invalidSubscriptionResponse message) = 1"
  "sm_Error (invalidSubscriptionResponse message) =
     invalidSubscriptionText (cm_Database message) (cm_Collection message)"
  by (simp_all add: invalidSubscriptionResponse_def subscribeResponse_def unsubscribeResponse_def
        snapshotStartMsg_def snapshotEndMsg_def snapshotErrorMsg_def snapshotBatchMsg_def
        zeroMessage_def Let_def)


subsection \<open>What a handler appends to the queue\<close>

lemma handleSnapshot_buf:
  assumes "handleSnapshot ws c sub = Some (c', spawned)"
  shows "subscriptions c' = subscriptions c \<and>
         (\<exists>xs. buf (send c') = buf (send c) @ xs \<and> (\<forall>m \<in> set xs. m = snapshotStartMsg))"
  using assms
  by (auto simp: handleSnapshot_def enqueue_eq_Some split: option.splits if_splits)

lemma handleSubscribe_rejected:
  assumes "rejectedByValidator ws (cm_Database message) (cm_Collection message)"
    and "handleSubscribe ws uuid now c message = Some (c', spawned)"
  shows "subscriptions c' = subscriptions c \<and> spawned = None \<and>
         buf (send c') = buf (send c) @
           (if length (buf (send c)) < cap (send c) then [invalidSubscriptionResponse message] else [])"
  using assms
  by (auto simp: handleSubscribe_def enqueue_eq_Some split: option.splits if_splits)

lemma handleSubscribe_accepted:
  assumes "\<not> rejectedByValidator ws (cm_Database message) (cm_Collection message)"
    and "handleSubscribe ws uuid now c message = Some (c', spawned)"
  shows "\<exists>xs. buf (send c') = buf (send c) @ xs \<and>
           (\<forall>m \<in> set xs. m = subscribeResponse message uuid \<or> m = snapshotStartMsg)"
  using assms
  by (auto simp: handleSubscribe_def Let_def enqueue_eq_Some split: option.splits if_splits
        dest!: handleSnapshot_buf)

lemma handleSubscribe_buf:
  assumes "handleSubscribe ws uuid now c message = Some (c', spawned)"
  shows "\<exists>xs. buf (send c') = buf (send c) @ xs \<and>
           (\<forall>m \<in> set xs. m = invalidSubscriptionResponse message \<or>
                m = subscribeResponse message uuid \<or> m = snapshotStartMsg)"
proof (cases "rejectedByValidator ws (cm_Database message) (cm_Collection message)")
  case True
  from handleSubscribe_rejected[OF True assms] show ?thesis by auto
next
  case False
  from handleSubscribe_accepted[OF False assms] show ?thesis by auto
qed

lemma handleUnsubscribe_buf:
  assumes "handleUnsubscribe c message = Some c'"
  shows "\<exists>xs. buf (send c') = buf (send c) @ xs \<and>
           (\<forall>m \<in> set xs. sm_Change m = None \<and> sm_RequestID m = cm_RequestID message)"
  using assms
  by (auto simp: handleUnsubscribe_def Let_def enqueue_eq_Some reply_fields
        split: option.splits if_splits prod.splits)

lemma handlePing_buf:
  assumes "handlePing c message = Some c'"
  shows "\<exists>xs. buf (send c') = buf (send c) @ xs \<and>
           (\<forall>m \<in> set xs. sm_Change m = None \<and> sm_RequestID m = cm_RequestID message)"
  using assms
  by (auto simp: handlePing_def enqueue_eq_Some zeroMessage_def split: option.splits if_splits)

lemma handleHealthWS_buf:
  assumes "handleHealthWS timestamp c message = Some c'"
  shows "\<exists>xs. buf (send c') = buf (send c) @ xs \<and>
           (\<forall>m \<in> set xs. sm_Change m = None \<and> sm_RequestID m = cm_RequestID message)"
  using assms
  by (auto simp: handleHealthWS_def zeroMessage_def enqueue_eq_Some split: option.splits if_splits)

lemma handleMessage_buf:
  assumes "handleMessage ws uuid now timestamp c message = Some (c', spawned)"
  shows "\<exists>xs. buf (send c') = buf (send c) @ xs \<and>
           (\<forall>m \<in> set xs. sm_Change m = None \<and>
                (m = snapshotStartMsg \<or> sm_RequestID m = cm_RequestID message))"
proof -
  consider (sub) "handleSubscribe ws uuid now c message = Some (c', spawned)"
    | (unsub) "handleUnsubscribe c message = Some c'"
    | (ping) "handlePing c message = Some c'"
    | (health) "handleHealthWS timestamp c message = Some c'"
    | (unknown) "c' = c"
    using assms by (auto simp: handleMessage_def split: if_splits)
  then show ?thesis
  proof cases
    case sub
    from handleSubscribe_buf[OF sub] show ?thesis by (fastforce simp: reply_fields)
  next
    case unsub
    from handleUnsubscribe_buf[OF unsub] show ?thesis by fastforce
  next
    case ping
    from handlePing_buf[OF ping] show ?thesis by fastforce
  next
    case health
    from handleHealthWS_buf[OF health] show ?thesis by fastforce
  next
    case unknown
    then show ?thesis by simp
  qed
qed

lemma callback_end_buf:
  assumes "callback_end c remaining = Some c'"
  shows "subscriptions c' = subscriptions c \<and>
         (\<exists>xs. buf (send c') = buf (send c) @ xs \<and> (\<forall>m \<in> set xs. m = snapshotEndMsg))"
  using assms by (auto simp: callback_end_def enqueue_eq_Some split: option.splits if_splits)

lemma callback_buf:
  assumes "callback c call = Some c'"
  shows "subscriptions c' = subscriptions c \<and>
         (\<exists>xs. buf (send c') = buf (send c) @ xs \<and>
            (\<forall>m \<in> set xs. sm_Change m = None \<and> sm_RequestID m = []))"
proof -
  obtain batch batchNum remaining err where call: "call = (batch, batchNum, remaining, err)"
    by (cases call)
  show ?thesis
  proof (cases err)
    case (Some e)
    with assms call show ?thesis
      by (auto simp: enqueue_eq_Some reply_fields split: option.splits if_splits)
  next
    case None
    show ?thesis
    proof (cases "length batch > 0")
      case False
      with assms call None have "callback_end c remaining = Some c'" by simp
      from callback_end_buf[OF this] show ?thesis by (fastforce simp: reply_fields)
    next
      case True
      with assms call None obtain ok c1 where
        e: "enqueue c (snapshotBatchMsg batch batchNum remaining) = Some (ok, c1)"
        and r: "(if ok then callback_end c1 remaining else Some c1) = Some c'"
        by (auto split: option.splits)
      from e have c1: "subscriptions c1 = subscriptions c"
        "buf (send c1) = buf (send c) @ (if ok then [snapshotBatchMsg batch batchNum remaining] else [])"
        by (auto simp: enqueue_eq_Some)
      show ?thesis
      proof (cases ok)
        case False
        with r c1 show ?thesis by auto
      next
        case True
        with r have "callback_end c1 remaining = Some c'" by simp
        from callback_end_buf[OF this] obtain xs where
          xs: "subscriptions c' = subscriptions c1" "buf (send c') = buf (send c1) @ xs"
              "\<forall>m \<in> set xs. m = snapshotEndMsg" by auto
        have "buf (send c') = buf (send c) @ (snapshotBatchMsg batch batchNum remaining # xs)"
          using xs c1 True by simp
        moreover have "\<forall>m \<in> set (snapshotBatchMsg batch batchNum remaining # xs).
                         sm_Change m = None \<and> sm_RequestID m = []"
          using xs(3) by (auto simp: reply_fields)
        ultimately show ?thesis using xs(1) c1(1) by metis
      qed
    qed
  qed
qed

subsection \<open>Handlers never close the channel\<close>

lemma handleSnapshot_open:
  "handleSnapshot ws c sub = Some (c', spawned) \<Longrightarrow> chan_closed (send c') = chan_closed (send c)"
  by (auto simp: handleSnapshot_def enqueue_eq_Some split: option.splits if_splits)

lemma handleSubscribe_open:
  "handleSubscribe ws uuid now c message = Some (c', spawned) \<Longrightarrow>
     chan_closed (send c') = chan_closed (send c)"
  by (auto simp: handleSubscribe_def Let_def enqueue_eq_Some split: option.splits if_splits
        dest!: handleSnapshot_open)

lemma handleUnsubscribe_open:
  "handleUnsubscribe c message = Some c' \<Longrightarrow> chan_closed (send c') = chan_closed (send c)"
  by (auto simp: handleUnsubscribe_def Let_def enqueue_eq_Some
        split: option.splits if_splits prod.splits)

lemma handleMessage_open:
  assumes "handleMessage ws uuid now timestamp c message = Some (c', spawned)"
  shows "chan_closed (send c') = chan_closed (send c)"
proof -
  consider (sub) "handleSubscribe ws uuid now c message = Some (c', spawned)"
    | (unsub) "handleUnsubscribe c message = Some c'"
    | (ping) "handlePing c message = Some c'"
    | (health) "handleHealthWS timestamp c message = Some c'"
    | (unknown) "c' = c"
    using assms by (auto simp: handleMessage_def split: if_splits)
  then show ?thesis
  proof cases
    case sub
    then show ?thesis by (rule handleSubscribe_open)
  next
    case unsub
    then show ?thesis by (rule handleUnsubscribe_open)
  next
    case ping
    then show ?thesis by (auto simp: handlePing_def enqueue_eq_Some split: option.splits if_splits)
  next
    case health
    then show ?thesis by (auto simp: handleHealthWS_def enqueue_eq_Some split: option.splits if_splits)
  next
    case unknown
    then show ?thesis by simp
  qed
qed

lemma callback_end_open:
  "callback_end c remaining = Some c' \<Longrightarrow> chan_closed (send c') = chan_closed (send c)"
  by (auto simp: callback_end_def enqueue_eq_Some split: option.splits if_splits)

lemma callback_open:
  assumes "callback c call = Some c'"
  shows "chan_closed (send c') = chan_closed (send c)"
proof -
  obtain batch batchNum remaining err where call: "call = (batch, batchNum, remaining, err)"
    by (cases call)
  show ?thesis
  proof (cases err)
    case (Some e)
    with assms call show ?thesis
      by (auto simp: enqueue_eq_Some split: option.splits if_splits)
  next
    case None
    show ?thesis
    proof (cases "length batch > 0")
      case False
      with assms call None have "callback_end c remaining = Some c'" by simp
      then show ?thesis by (rule callback_end_open)
    next
      case True
      with assms call None obtain ok c1 where
        e: "enqueue c (snapshotBatchMsg batch batchNum remaining) = Some (ok, c1)"
        and r: "(if ok then callback_end c1 remaining else Some c1) = Some c'"
        by (auto split: option.splits)
      from e have c1: "chan_closed (send c1) = chan_closed (send c)" by (auto simp: enqueue_eq_Some)
      from r callback_end_open[of c1 remaining c'] c1 show ?thesis by (auto split: if_splits)
    qed
  qed
qed

subsection \<open>The validator\<close>

lemma IsValidSubscription_whitelisted:
  "IsValidSubscription cfgs db coll \<Longrightarrow>
   \<exists>cfg \<in> set cfgs. Name cfg = db \<and> (Collections cfg = [] \<or> coll \<in> set (Collections cfg))"
  by (induction cfgs) (auto split: if_splits)

lemma set_update_subset: "set (AList.update k v al) \<subseteq> insert (k, v) (set al)"
  by (induction al) auto

lemma set_delete_subset: "set (AList.delete k al) \<subseteq> set al"
  by (auto simp: AList.delete_eq)

lemma subscriptions_valid_mono:
  "subscriptions_valid v c \<Longrightarrow> set (subscriptions c') \<subseteq> set (subscriptions c) \<Longrightarrow>
     subscriptions_valid v c'"
  by (auto simp: subscriptions_valid_def list_all_iff)

lemma handleSubscribe_valid:
  assumes "validator ws = Some v"
    and "handleSubscribe (Some ws) uuid now c message = Some (c', spawned)"
    and "subscriptions_valid v c"
  shows "subscriptions_valid v c'"
proof (cases "rejectedByValidator (Some ws) (cm_Database message) (cm_Collection message)")
  case True
  from handleSubscribe_rejected[OF True assms(2)] assms(3) show ?thesis
    by (simp add: subscriptions_valid_def)
next
  case False
  with assms(1) have valid: "IsValidSubscription (dbConfigs v) (cm_Database message) (cm_Collection message)"
    by (simp add: rejectedByValidator_def)
  let ?sub = "\<lparr> sub_ID = uuid, sub_ClientID = cl_ID c,
               sub_Database = cm_Database message, sub_Collection = cm_Collection message,
               sub_CreatedAt = now, sub_SnapshotOptions = cm_SnapshotOptions message \<rparr>"
  from False assms(2) have "subscriptions c' = AList.update uuid ?sub (subscriptions c)"
    by (auto simp: handleSubscribe_def Let_def enqueue_eq_Some split: option.splits if_splits
          dest!: handleSnapshot_buf)
  with set_update_subset[of uuid ?sub "subscriptions c"] assms(3) valid show ?thesis
    by (auto simp: subscriptions_valid_def list_all_iff)
qed

lemma handleUnsubscribe_subs:
  assumes "handleUnsubscribe c message = Some c'"
  shows "set (subscriptions c') \<subseteq> set (subscriptions c)"
  using assms set_delete_subset[of "cm_SubscriptionID message" "subscriptions c"]
  by (auto simp: handleUnsubscribe_def Let_def enqueue_eq_Some
        split: option.splits if_splits prod.splits)

lemma handleMessage_valid:
  assumes "validator ws = Some v"
    and "handleMessage (Some ws) uuid now timestamp c message = Some (c', spawned)"
    and "subscriptions_valid v c"
  shows "subscriptions_valid v c'"
proof -
  consider (sub) "handleSubscribe (Some ws) uuid now c message = Some (c', spawned)"
    | (unsub) "handleUnsubscribe c message = Some c'"
    | (ping) "handlePing c message = Some c'"
    | (health) "handleHealthWS timestamp c message = Some c'"
    | (unknown) "c' = c"
    using assms(2) by (auto simp: handleMessage_def split: if_splits)
  then show ?thesis
  proof cases
    case sub
    from handleSubscribe_valid[OF assms(1) sub assms(3)] show ?thesis .
  next
    case unsub
    from subscriptions_valid_mono[OF assms(3) handleUnsubscribe_subs[OF unsub]] show ?thesis .
  next
    case ping
    then have "subscriptions c' = subscriptions c"
      by (auto simp: handlePing_def enqueue_eq_Some split: option.splits if_splits)
    with assms(3) show ?thesis by (simp add: subscriptions_valid_def)
  next
    case health
    then have "subscriptions c' = subscriptions c"
      by (auto simp: handleHealthWS_def enqueue_eq_Some split: option.splits if_splits)
    with assms(3) show ?thesis by (simp add: subscriptions_valid_def)
  next
    case unknown
    with assms(3) show ?thesis by simp
  qed
qed

subsection \<open>The broadcast loop\<close>

lemma set_send_simps [simp]:
  "clients (set_send h r ch) = clients h"
  "heap (set_send h r ch) r' = (if r' = r then (heap h r)\<lparr> send := ch \<rparr> else heap h r')"
  by (simp_all add: set_send_def)

lemma delete_client_simps [simp]:
  "clients (delete_client h r) = removeAll r (clients h)"
  "heap (delete_client h r) = heap h"
  by (simp_all add: delete_client_def)


lemma broadcast_loop_Cons:
  assumes "broadcast_loop (x # rest) message h = Some h'"
  obtains
    (skip) "\<not> (x \<in> set (clients h) \<and> isClientSubscribed (heap h x) message)"
           "broadcast_loop rest message h = Some h'"
  | (sent) "x \<in> set (clients h)" "isClientSubscribed (heap h x) message"
           "\<not> chan_closed (send (heap h x))" "length (buf (send (heap h x))) < cap (send (heap h x))"
           "broadcast_loop rest message
              (set_send h x ((send (heap h x))\<lparr> buf := buf (send (heap h x)) @ [message] \<rparr>)) = Some h'"
  | (evict) "x \<in> set (clients h)" "isClientSubscribed (heap h x) message"
           "\<not> chan_closed (send (heap h x))" "\<not> length (buf (send (heap h x))) < cap (send (heap h x))"
           "broadcast_loop rest message
              (delete_client (set_send h x ((send (heap h x))\<lparr> chan_closed := True \<rparr>)) x) = Some h'"
  using assms
  by (auto simp: nb_send_Sent nb_send_WouldBlock close_chan_Some
        split: if_splits send_result.splits option.splits)

lemma broadcast_loop_clients:
  "broadcast_loop rs message h = Some h' \<Longrightarrow>
     set (clients h') \<subseteq> set (clients h) \<and> (distinct (clients h) \<longrightarrow> distinct (clients h'))"
proof (induction rs arbitrary: h)
  case Nil
  then show ?case by simp
next
  case (Cons x rest)
  from Cons.prems show ?case
  proof (cases rule: broadcast_loop_Cons)
    case skip
    from Cons.IH[OF skip(2)] show ?thesis .
  next
    case sent
    from Cons.IH[OF sent(5)] show ?thesis by simp
  next
    case evict
    from Cons.IH[OF evict(5)] show ?thesis by (auto simp: distinct_removeAll)
  qed
qed

lemma broadcast_loop_untouched:
  "broadcast_loop rs message h = Some h' \<Longrightarrow> r \<notin> set rs \<or> r \<notin> set (clients h) \<Longrightarrow>
     heap h' r = heap h r"
proof (induction rs arbitrary: h)
  case Nil
  then show ?case by simp
next
  case (Cons x rest)
  from Cons.prems(1) show ?case
  proof (cases rule: broadcast_loop_Cons)
    case skip
    from Cons.IH[OF skip(2)] Cons.prems(2) show ?thesis by auto
  next
    case sent
    have "heap h' r = heap (set_send h x ((send (heap h x))\<lparr> buf := buf (send (heap h x)) @ [message] \<rparr>)) r"
      using Cons.IH[OF sent(5)] Cons.prems(2) by auto
    with sent(1) Cons.prems(2) show ?thesis by auto
  next
    case evict
    have "heap h' r = heap (delete_client (set_send h x ((send (heap h x))\<lparr> chan_closed := True \<rparr>)) x) r"
      using Cons.IH[OF evict(5)] Cons.prems(2) by auto
    with evict(1) Cons.prems(2) show ?thesis by auto
  qed
qed

lemma broadcast_loop_client:
  "broadcast_loop rs message h = Some h' \<Longrightarrow>
     subscriptions (heap h' r) = subscriptions (heap h r) \<and>
     cl_ID (heap h' r) = cl_ID (heap h r) \<and>
     cap (send (heap h' r)) = cap (send (heap h r)) \<and>
     (chan_closed (send (heap h r)) \<longrightarrow> chan_closed (send (heap h' r))) \<and>
     (\<exists>k. buf (send (heap h' r)) = buf (send (heap h r)) @ replicate k message \<and>
          k \<le> count_list rs r \<and>
          (0 < k \<longrightarrow> r \<in> set (clients h) \<and> isClientSubscribed (heap h r) message))"
proof (induction rs arbitrary: h)
  case Nil
  then show ?case by simp
next
  case (Cons x rest)
  from Cons.prems show ?case
  proof (cases rule: broadcast_loop_Cons)
    case skip
    from Cons.IH[OF skip(2)] show ?thesis by auto
  next
    case sent
    let ?h1 = "set_send h x ((send (heap h x))\<lparr> buf := buf (send (heap h x)) @ [message] \<rparr>)"
    from Cons.IH[OF sent(5)] obtain k where k:
      "subscriptions (heap h' r) = subscriptions (heap ?h1 r)"
      "cl_ID (heap h' r) = cl_ID (heap ?h1 r)"
      "cap (send (heap h' r)) = cap (send (heap ?h1 r))"
      "chan_closed (send (heap ?h1 r)) \<longrightarrow> chan_closed (send (heap h' r))"
      "buf (send (heap h' r)) = buf (send (heap ?h1 r)) @ replicate k message"
      "k \<le> count_list rest r"
      "0 < k \<longrightarrow> r \<in> set (clients ?h1) \<and> isClientSubscribed (heap ?h1 r) message"
      by blast
    show ?thesis
    proof (cases "r = x")
      case True
      have "buf (send (heap h' r)) = buf (send (heap h r)) @ replicate (Suc k) message"
        using k(5) True by (simp add: replicate_app_Cons_same)
      moreover have "Suc k \<le> count_list (x # rest) r" using k(6) True by simp
      ultimately show ?thesis using k(1-4) True sent(1,2) by (intro conjI exI[of _ "Suc k"]) auto
    next
      case False
      with k show ?thesis by (intro conjI exI[of _ k]) (auto simp: isClientSubscribed_def)
    qed
  next
    case evict
    let ?h1 = "delete_client (set_send h x ((send (heap h x))\<lparr> chan_closed := True \<rparr>)) x"
    from Cons.IH[OF evict(5)] obtain k where k:
      "subscriptions (heap h' r) = subscriptions (heap ?h1 r)"
      "cl_ID (heap h' r) = cl_ID (heap ?h1 r)"
      "cap (send (heap h' r)) = cap (send (heap ?h1 r))"
      "chan_closed (send (heap ?h1 r)) \<longrightarrow> chan_closed (send (heap h' r))"
      "buf (send (heap h' r)) = buf (send (heap ?h1 r)) @ replicate k message"
      "k \<le> count_list rest r"
      "0 < k \<longrightarrow> r \<in> set (clients ?h1) \<and> isClientSubscribed (heap ?h1 r) message"
      by blast
    show ?thesis
    proof (cases "r = x")
      case True
      with k(7) have "k = 0" by auto
      with k True show ?thesis by (intro conjI exI[of _ 0]) auto
    next
      case False
      with k show ?thesis by (intro conjI exI[of _ k]) (auto simp: isClientSubscribed_def)
    qed
  qed
qed

lemma broadcast_loop_evicts:
  "broadcast_loop rs message h = Some h' \<Longrightarrow> r \<in> set rs \<Longrightarrow> r \<in> set (clients h) \<Longrightarrow>
   isClientSubscribed (heap h r) message \<Longrightarrow> nb_send (send (heap h r)) message = WouldBlock \<Longrightarrow>
     r \<notin> set (clients h') \<and>
     heap h' r = (heap h r)\<lparr> send := (send (heap h r))\<lparr> chan_closed := True \<rparr> \<rparr>"
proof (induction rs arbitrary: h)
  case Nil
  then show ?case by simp
next
  case (Cons x rest)
  from Cons.prems(1) show ?case
  proof (cases rule: broadcast_loop_Cons)
    case skip
    with Cons.prems have "r \<in> set rest" by auto
    from Cons.IH[OF skip(2) this Cons.prems(3,4,5)] show ?thesis .
  next
    case sent
    with Cons.prems(5) have ne: "r \<noteq> x" by (auto simp: nb_send_WouldBlock)
    let ?h1 = "set_send h x ((send (heap h x))\<lparr> buf := buf (send (heap h x)) @ [message] \<rparr>)"
    have "r \<in> set rest" "r \<in> set (clients ?h1)" "isClientSubscribed (heap ?h1 r) message"
      "nb_send (send (heap ?h1 r)) message = WouldBlock" "heap ?h1 r = heap h r"
      using ne Cons.prems by auto
    with Cons.IH[OF sent(5)] show ?thesis by simp
  next
    case evict
    let ?h1 = "delete_client (set_send h x ((send (heap h x))\<lparr> chan_closed := True \<rparr>)) x"
    show ?thesis
    proof (cases "r = x")
      case True
      then have out: "r \<notin> set (clients ?h1)" by simp
      from broadcast_loop_clients[OF evict(5)] out have "r \<notin> set (clients h')" by blast
      moreover from broadcast_loop_untouched[OF evict(5), of r] out
      have "heap h' r = heap ?h1 r" by blast
      ultimately show ?thesis using True by simp
    next
      case False
      have "r \<in> set rest" "r \<in> set (clients ?h1)" "isClientSubscribed (heap ?h1 r) message"
        "nb_send (send (heap ?h1 r)) message = WouldBlock" "heap ?h1 r = heap h r"
        using False Cons.prems by auto
      with Cons.IH[OF evict(5)] show ?thesis by simp
    qed
  qed
qed


lemma broadcast_loop_total:
  "hub_ok h \<Longrightarrow> \<exists>h'. broadcast_loop rs message h = Some h' \<and> hub_ok h'"
proof (induction rs arbitrary: h)
  case Nil
  then show ?case by simp
next
  case (Cons x rest)
  show ?case
  proof (cases "x \<in> set (clients h) \<and> isClientSubscribed (heap h x) message")
    case False
    with Cons.IH[OF Cons.prems] show ?thesis by auto
  next
    case True
    with Cons.prems have op: "\<not> chan_closed (send (heap h x))" by (auto simp: hub_ok_def)
    show ?thesis
    proof (cases "length (buf (send (heap h x))) < cap (send (heap h x))")
      case room: True
      let ?h1 = "set_send h x ((send (heap h x))\<lparr> buf := buf (send (heap h x)) @ [message] \<rparr>)"
      have "hub_ok ?h1" using Cons.prems by (auto simp: hub_ok_def)
      from Cons.IH[OF this] True op room show ?thesis by (simp add: nb_send_def)
    next
      case full: False
      let ?h1 = "delete_client (set_send h x ((send (heap h x))\<lparr> chan_closed := True \<rparr>)) x"
      have "hub_ok ?h1" using Cons.prems by (auto simp: hub_ok_def)
      from Cons.IH[OF this] True op full show ?thesis by (simp add: nb_send_def close_chan_def)
    qed
  qed
qed

lemma hub_unregister_Some:
  "hub_unregister h r = Some h' \<Longrightarrow>
     set (clients h') \<subseteq> set (clients h) \<and> (distinct (clients h) \<longrightarrow> distinct (clients h')) \<and>
     (\<forall>r'. subscriptions (heap h' r') = subscriptions (heap h r') \<and>
           buf (send (heap h' r')) = buf (send (heap h r')) \<and>
           (r' \<notin> set (clients h) \<longrightarrow> heap h' r' = heap h r'))"
  by (auto simp: hub_unregister_def close_chan_Some distinct_removeAll split: if_splits option.splits)

lemma hub_handle_absent:
  assumes "hub_handle h ev = Some h'" "r \<notin> set (clients h)" "ev \<noteq> Register r"
  shows "r \<notin> set (clients h') \<and> heap h' r = heap h r"
proof (cases ev)
  case (Register x)
  with assms show ?thesis by (auto simp: hub_register_def)
next
  case (Unregister x)
  with assms hub_unregister_Some[of h x h'] show ?thesis by auto
next
  case (Broadcast m)
  with assms have b: "broadcast_loop (clients h) m h = Some h'" by (simp add: hub_broadcast_def)
  from broadcast_loop_clients[OF b] broadcast_loop_untouched[OF b, of r] assms(2)
  show ?thesis by auto
qed

lemma run_absent:
  "run h evs = Some h' \<Longrightarrow> r \<notin> set (clients h) \<Longrightarrow> Register r \<notin> set evs \<Longrightarrow>
     r \<notin> set (clients h') \<and> heap h' r = heap h r"
proof (induction evs arbitrary: h)
  case Nil
  then show ?case by simp
next
  case (Cons ev evs)
  from Cons.prems(1) obtain h1 where h1: "hub_handle h ev = Some h1" "run h1 evs = Some h'"
    by (auto split: option.splits)
  from hub_handle_absent[OF h1(1) Cons.prems(2)] Cons.prems(3)
  have a: "r \<notin> set (clients h1)" "heap h1 r = heap h r" by auto
  from Cons.IH[OF h1(2) a(1)] Cons.prems(3) a(2) show ?case by simp
qed

subsection \<open>Invariants of the interleaved server\<close>

lemma set_client_simps [simp]:
  "clients (hub (set_client s r c)) = clients (hub s)"
  "heap (hub (set_client s r c)) r' = (if r' = r then c else heap (hub s) r')"
  "produced (set_client s r c) = produced s"
  "forwarded (set_client s r c) = forwarded s"
  "received (set_client s r c) = received s"
  "pending (set_client s r c) = pending s"
  "changesCh (set_client s r c) = changesCh s"
  "tasks (set_client s r c) = tasks s"
  "next_ref (set_client s r c) = next_ref s"
  by (simp_all add: set_client_def)

lemma changes_append [simp]: "changes (xs @ ys) = changes xs @ changes ys"
  by (induction xs) (auto split: option.splits)





lemma in_flight_set_client [simp]: "in_flight (set_client s r c) = in_flight s"
  by (simp add: in_flight_def fun_eq_iff)
















lemma perform_valid:
  assumes "validator ws = Some v"
    and "perform (Some ws) s a = Some s'"
    and "\<And>client. subscriptions_valid v (heap (hub s) client)"
  shows "subscriptions_valid v (heap (hub s') client)"
proof (cases a)
  case (Ingest change)
  with assms(2) have "hub s' = hub s" by (auto simp: Let_def split: send_result.splits)
  with assms(3) show ?thesis by simp
next
  case (Take db)
  with assms(2) have "hub s' = hub s" by (auto split: list.splits option.splits)
  with assms(3) show ?thesis by simp
next
  case (Deliver db)
  with assms(2) obtain change where
    "broadcast_loop (clients (hub s)) (changeMessage (Some change)) (hub s) = Some (hub s')"
    by (auto simp: BroadcastChange_def hub_broadcast_def split: option.splits)
  from broadcast_loop_client[OF this, of client] assms(3)[of client] show ?thesis
    by (simp add: subscriptions_valid_def)
next
  case (Connect uuid)
  with assms(2) have "heap (hub s') = (heap (hub s))(next_ref s := newClient uuid)"
    by (auto simp: hub_register_def set_client_def)
  with assms(3)[of client] show ?thesis by (simp add: subscriptions_valid_def newClient_def)
next
  case (Disconnect r)
  with assms(2) have "hub_unregister (hub s) r = Some (hub s')" by (auto split: option.splits)
  from hub_unregister_Some[OF this] assms(3)[of client] show ?thesis
    by (simp add: subscriptions_valid_def)
next
  case (Request r uuid now timestamp message)
  with assms(2) obtain c' spawned where
    hm: "handleMessage (Some ws) uuid now timestamp (heap (hub s) r) message = Some (c', spawned)"
    and h: "heap (hub s') = (heap (hub s))(r := c')"
    by (auto simp: set_client_def split: option.splits)
  from handleMessage_valid[OF assms(1) hm assms(3)] h assms(3)[of client] show ?thesis by simp
next
  case (SnapshotCall i)
  with assms(2) obtain r call c' where
    cb: "callback (heap (hub s) r) call = Some c'" and h: "heap (hub s') = (heap (hub s))(r := c')"
    by (auto simp: set_client_def split: if_splits prod.splits list.splits option.splits)
  from callback_buf[OF cb] h assms(3)[of client] assms(3)[of r] show ?thesis
    by (simp add: subscriptions_valid_def)
next
  case (Write r)
  with assms(2) obtain rest where
    "heap (hub s') = (heap (hub s))(r := (heap (hub s) r)\<lparr> send := (send (heap (hub s) r))\<lparr> buf := rest \<rparr> \<rparr>)"
    by (auto simp: set_client_def split: list.splits)
  with assms(3)[of client] assms(3)[of r] show ?thesis by (simp add: subscriptions_valid_def)
qed

lemma exec_valid:
  "validator ws = Some v \<Longrightarrow> exec (Some ws) s as = Some s' \<Longrightarrow>
   (\<And>client. subscriptions_valid v (heap (hub s) client)) \<Longrightarrow>
     subscriptions_valid v (heap (hub s') client)"
proof (induction as arbitrary: s client)
  case Nil
  then show ?case by simp
next
  case (Cons a as)
  from Cons.prems(2) obtain s1 where s1: "perform (Some ws) s a = Some s1" "exec (Some ws) s1 as = Some s'"
    by (auto split: option.splits)
  have "subscriptions_valid v (heap (hub s1) r)" for r
    using perform_valid[OF Cons.prems(1) s1(1)] Cons.prems(3) by blast
  from Cons.IH[OF Cons.prems(1) s1(2) this] show ?case .
qed

lemma hub_ok_perform:
  assumes "hub_ok (hub s)" "perform ws s a = Some s'"
  shows "hub_ok (hub s')"
proof (cases a)
  case (Ingest change)
  with assms(2) have "hub s' = hub s" by (auto simp: Let_def split: send_result.splits)
  with assms(1) show ?thesis by simp
next
  case (Take db)
  with assms(2) have "hub s' = hub s" by (auto split: list.splits option.splits)
  with assms(1) show ?thesis by simp
next
  case (Deliver db)
  with assms(2) obtain change where
    b: "broadcast_loop (clients (hub s)) (changeMessage (Some change)) (hub s) = Some (hub s')"
    by (auto simp: BroadcastChange_def hub_broadcast_def split: option.splits)
  from broadcast_loop_total[OF assms(1), of "clients (hub s)" "changeMessage (Some change)"] b
  show ?thesis by auto
next
  case (Connect uuid)
  with assms show ?thesis
    by (auto simp: hub_ok_def hub_register_def set_client_def newClient_def make_chan_def
          split: if_splits)
next
  case (Disconnect r)
  with assms show ?thesis
    by (auto simp: hub_ok_def hub_unregister_def close_chan_Some split: if_splits option.splits)
next
  case (Request r uuid now timestamp message)
  with assms(2) obtain c' spawned where
    hm: "handleMessage ws uuid now timestamp (heap (hub s) r) message = Some (c', spawned)"
    and h: "heap (hub s') = (heap (hub s))(r := c')" "clients (hub s') = clients (hub s)"
    by (auto simp: set_client_def split: option.splits)
  from handleMessage_open[OF hm] h assms(1) show ?thesis by (auto simp: hub_ok_def)
next
  case (SnapshotCall i)
  with assms(2) obtain r call c' where
    cb: "callback (heap (hub s) r) call = Some c'"
    and h: "heap (hub s') = (heap (hub s))(r := c')" "clients (hub s') = clients (hub s)"
    by (auto simp: set_client_def split: if_splits prod.splits list.splits option.splits)
  from callback_open[OF cb] h assms(1) show ?thesis by (auto simp: hub_ok_def)
next
  case (Write r)
  with assms(2) obtain rest where
    "heap (hub s') = (heap (hub s))(r := (heap (hub s) r)\<lparr> send := (send (heap (hub s) r))\<lparr> buf := rest \<rparr> \<rparr>)"
    "clients (hub s') = clients (hub s)"
    by (auto simp: set_client_def split: list.splits)
  with assms(1) show ?thesis by (auto simp: hub_ok_def)
qed

lemma hub_ok_exec: "hub_ok (hub s) \<Longrightarrow> exec ws s as = Some s' \<Longrightarrow> hub_ok (hub s')"
proof (induction as arbitrary: s)
  case Nil
  then show ?case by simp
next
  case (Cons a as)
  from Cons.prems(2) obtain s1 where s1: "perform ws s a = Some s1" "exec ws s1 as = Some s'"
    by (auto split: option.splits)
  from Cons.IH[OF hub_ok_perform[OF Cons.prems(1) s1(1)] s1(2)] show ?case .
qed

lemma hub_ok_reachable: "exec ws initial as = Some s \<Longrightarrow> hub_ok (hub s)"
  by (rule hub_ok_exec[of initial]) (simp_all add: hub_ok_def initial_def)

subsection \<open>The snapshot loop\<close>




lemma snapshot_calls_three_docs:
  "MultiDB_StreamSnapshot (managerA (listStore [doc1, doc2, doc3])) ''A'' ''x'' (Some batch2) =
     [([doc1, doc2], 1, 1, None), ([doc3], 2, 0, None)]"
  by code_simp

lemma subscribeSnapshot_accepted: "\<not> rejectedByValidator (Some (serverA (listStore [doc1, doc2, doc3]))) ''A'' ''x''"
  by code_simp

lemma busy_subscribe:
  "handleMessage (Some (serverA (listStore [doc1, doc2, doc3]))) ''u1'' 0 ''t0'' (busyClient 1022) subscribeSnapshot =
     Some (queuedClient (replicate 1022 pongMsg @ [subscribeResponse subscribeSnapshot ''u1'', snapshotStartMsg]),
           Some [([doc1, doc2], 1, 1, None), ([doc3], 2, 0, None)])"
  using subscribeSnapshot_accepted snapshot_calls_three_docs
  by (simp add: handleMessage_def handleSubscribe_def handleSnapshot_def enqueue_def nb_send_def
        busyClient_def newClient_def make_chan_def subscribeSnapshot_def wantsSnapshot_def batch2_def
        serverA_def MessageType_defs queuedClient_def subscriptionSnapshot_def)

lemma callback_full_queue:
  "length ms = 1024 \<Longrightarrow> ms' \<noteq> [] \<Longrightarrow>
   callback (queuedClient ms) (ms', n, r, None) = Some (queuedClient ms)"
  by (simp add: enqueue_def nb_send_def queuedClient_def)

lemma callback_last_batch:
  "length ms = 1022 \<Longrightarrow>
   callback (queuedClient ms) ([doc3], 2, 0, None) =
     Some (queuedClient (ms @ [snapshotBatchMsg [doc3] 2 0, snapshotEndMsg]))"
  by (simp add: enqueue_def nb_send_def queuedClient_def callback_end_def)

lemma replicate_1022: "replicate 1022 x = x # x # replicate 1020 x"
proof -
  have "replicate (2 + 1020) x = replicate 2 x @ replicate 1020 x" by (rule replicate_add)
  then show ?thesis by (simp add: numeral_2_eq_2)
qed

subsection \<open>The snapshot envelope over a non-empty collection\<close>

text \<open>
  Over a store that holds a fixed, non-empty list of matching documents, and for a client
  whose queue has room, the session is \<open>snapshot_start\<close>, one or more non-empty
  batches, \<open>snapshot_end\<close>.
\<close>

lemma decode_batch_all_ok: "decode_batch (map Inr batch) = Inr batch"
  by (induction batch) auto

lemma listStore_Find:
  "Find (listStore docs) collection flt skip limit srt =
     Inr (map Inr (take (nat limit) (drop (nat skip) docs)))"
  by (simp add: listStore_def)

lemma enqueue_room:
  "\<not> chan_closed (send c) \<Longrightarrow> length (buf (send c)) < cap (send c) \<Longrightarrow>
     enqueue c m = Some (True, c\<lparr> send := (send c)\<lparr> buf := buf (send c) @ [m] \<rparr> \<rparr>)"
  by (simp add: enqueue_def nb_send_def)

lemma listStore_envelope_loop:
  "0 < remaining \<Longrightarrow> 0 \<le> skip \<Longrightarrow> nat skip + nat remaining \<le> length docs \<Longrightarrow>
   \<not> chan_closed (send c) \<Longrightarrow> length (buf (send c)) + nat remaining < cap (send c) \<Longrightarrow>
     \<exists>c' batches.
        run_callbacks c (stream_loop (listStore docs) collection opts skip batchNum remaining) = Some c' \<and>
        buf (send c') = buf (send c) @ batches @ [snapshotEndMsg] \<and> batches \<noteq> [] \<and>
        (\<forall>m \<in> set batches. sm_Type m = MessageTypeSnapshot \<and> sm_SnapshotData m \<noteq> [])"
proof (induction "listStore docs" collection opts skip batchNum remaining arbitrary: c
       rule: stream_loop.induct)
  case (1 collection opts skip batchNum remaining)
  let ?cbs = "currentBatchSize remaining (effBatchSize opts)"
  let ?batch = "take (nat ?cbs) (drop (nat skip) docs)"
  let ?msg = "snapshotBatchMsg ?batch batchNum (remaining - ?cbs)"
  let ?c1 = "c\<lparr> send := (send c)\<lparr> buf := buf (send c) @ [?msg] \<rparr> \<rparr>"
  from "1.prems"(1) have cbs: "0 < ?cbs" "?cbs \<le> remaining"
    by (auto simp: currentBatchSize_def effBatchSize_def)
  with "1.prems"(2,3) have len: "int (length ?batch) = ?cbs" by auto
  then have ne: "?batch \<noteq> []" using cbs(1) by auto
  have msg: "sm_Type ?msg = MessageTypeSnapshot" "sm_SnapshotData ?msg \<noteq> []"
    using ne by (simp_all add: snapshotBatchMsg_def)
  have calls: "stream_loop (listStore docs) collection opts skip batchNum remaining =
      (?batch, batchNum, remaining - ?cbs, None) #
      stream_loop (listStore docs) collection opts (skip + ?cbs) (batchNum + 1) (remaining - ?cbs)"
    using "1.prems"(1) len
    by (subst stream_loop.simps) (simp add: listStore_Find decode_batch_all_ok)
  have e1: "enqueue c ?msg = Some (True, ?c1)"
    using "1.prems"(4,5) by (intro enqueue_room) auto
  have cb0: "callback c (?batch, batchNum, remaining - ?cbs, None) = callback_end ?c1 (remaining - ?cbs)"
    using ne by (simp add: e1)
  show ?case
  proof (cases "remaining - ?cbs = 0")
    case True
    then have rest: "stream_loop (listStore docs) collection opts (skip + ?cbs) (batchNum + 1) (remaining - ?cbs) = []"
      by (subst stream_loop.simps) simp
    have e2: "enqueue ?c1 snapshotEndMsg =
        Some (True, ?c1\<lparr> send := (send ?c1)\<lparr> buf := buf (send ?c1) @ [snapshotEndMsg] \<rparr> \<rparr>)"
      using "1.prems"(1,4,5) by (intro enqueue_room) auto
    have ce: "callback_end ?c1 (remaining - ?cbs) =
        Some (?c1\<lparr> send := (send ?c1)\<lparr> buf := buf (send ?c1) @ [snapshotEndMsg] \<rparr> \<rparr>)"
      using True e2 by (simp add: callback_end_def)
    have "run_callbacks c (stream_loop (listStore docs) collection opts skip batchNum remaining) =
        Some (?c1\<lparr> send := (send ?c1)\<lparr> buf := buf (send ?c1) @ [snapshotEndMsg] \<rparr> \<rparr>)"
      by (simp only: calls rest run_callbacks.simps cb0 ce option.case)
    moreover have "buf (send (?c1\<lparr> send := (send ?c1)\<lparr> buf := buf (send ?c1) @ [snapshotEndMsg] \<rparr> \<rparr>)) =
        buf (send c) @ [?msg] @ [snapshotEndMsg]" by simp
    ultimately show ?thesis using msg by (intro exI[of _ _] exI[of _ "[?msg]"]) auto
  next
    case False
    with cbs have pos: "0 < remaining - ?cbs" by simp
    have cb: "callback c (?batch, batchNum, remaining - ?cbs, None) = Some ?c1"
      using False by (simp only: cb0 callback_end_def if_False)
    have cont: "\<not> int (length ?batch) < ?cbs" using len by simp
    have "\<exists>c' batches.
        run_callbacks ?c1 (stream_loop (listStore docs) collection opts (skip + int (length ?batch))
           (batchNum + 1) (remaining - int (length ?batch))) = Some c' \<and>
        buf (send c') = buf (send ?c1) @ batches @ [snapshotEndMsg] \<and> batches \<noteq> [] \<and>
        (\<forall>m \<in> set batches. sm_Type m = MessageTypeSnapshot \<and> sm_SnapshotData m \<noteq> [])"
    proof (rule "1.hyps"[OF "1.prems"(1) _ _ cont])
      show "Find (listStore docs) collection (effFilter opts) skip ?cbs (SnapshotSort opts) = Inr (map Inr ?batch)"
        by (rule listStore_Find)
      show "decode_batch (map Inr ?batch) = Inr ?batch" by (rule decode_batch_all_ok)
      show "0 < remaining - int (length ?batch)" using pos len by simp
      show "0 \<le> skip + int (length ?batch)" using "1.prems"(2) by simp
      show "nat (skip + int (length ?batch)) + nat (remaining - int (length ?batch)) \<le> length docs"
        using "1.prems"(1,2,3) cbs len by (simp add: nat_add_distrib; linarith)
      show "\<not> chan_closed (send ?c1)" using "1.prems"(4) by simp
      show "length (buf (send ?c1)) + nat (remaining - int (length ?batch)) < cap (send ?c1)"
        using "1.prems"(5) cbs len by (simp; linarith)
    qed
    then obtain c' batches where r:
      "run_callbacks ?c1 (stream_loop (listStore docs) collection opts (skip + ?cbs)
           (batchNum + 1) (remaining - ?cbs)) = Some c'"
      "buf (send c') = buf (send ?c1) @ batches @ [snapshotEndMsg]" "batches \<noteq> []"
      "\<forall>m \<in> set batches. sm_Type m = MessageTypeSnapshot \<and> sm_SnapshotData m \<noteq> []"
      using len by auto
    have "run_callbacks c (stream_loop (listStore docs) collection opts skip batchNum remaining) = Some c'"
      using r(1) by (simp only: calls run_callbacks.simps cb option.case)
    moreover have "buf (send c') = buf (send c) @ (?msg # batches) @ [snapshotEndMsg]"
      using r(2) by simp
    ultimately show ?thesis using r(3,4) msg
      by (intro exI[of _ c'] exI[of _ "?msg # batches"]) auto
  qed
qed

lemma snapshot_envelope_nonempty:
  assumes "snapshotStreamer ws = Some m"
    and "map_of (managers m) (sub_Database subscription) = Some (listStore docs)"
    and "sub_SnapshotOptions subscription = Some opts"
    and "docs \<noteq> []"
    and "\<not> chan_closed (send c)"
    and "length (buf (send c)) + length docs + 1 < cap (send c)"
  shows "\<exists>c1 calls c' batches.
           handleSnapshot (Some ws) c subscription = Some (c1, Some calls) \<and>
           run_callbacks c1 calls = Some c' \<and>
           replies c c' = snapshotStartMsg # batches @ [snapshotEndMsg] \<and> batches \<noteq> [] \<and>
           (\<forall>m \<in> set batches. sm_Type m = MessageTypeSnapshot \<and> sm_SnapshotData m \<noteq> [])"
proof -
  let ?T = "actualTotal (int (length docs)) opts"
  let ?c1 = "c\<lparr> send := (send c)\<lparr> buf := buf (send c) @ [snapshotStartMsg] \<rparr> \<rparr>"
  let ?calls = "stream_loop (listStore docs) (sub_Collection subscription) opts 0 1 ?T"
  from assms(4) have T: "0 < ?T" "nat ?T \<le> length docs"
    by (auto simp: actualTotal_def effLimit_def)
  have start: "enqueue c snapshotStartMsg = Some (True, ?c1)"
    using assms(5,6) by (intro enqueue_room) auto
  have calls: "MultiDB_StreamSnapshot m (sub_Database subscription) (sub_Collection subscription)
                 (sub_SnapshotOptions subscription) = ?calls"
    using assms(2,3) by (simp add: MultiDB_StreamSnapshot_def StreamSnapshot_def listStore_def)
  have hs: "handleSnapshot (Some ws) c subscription = Some (?c1, Some ?calls)"
    using assms(1) by (simp add: handleSnapshot_def start calls)
  have "\<exists>c' batches.
        run_callbacks ?c1 ?calls = Some c' \<and>
        buf (send c') = buf (send ?c1) @ batches @ [snapshotEndMsg] \<and> batches \<noteq> [] \<and>
        (\<forall>m \<in> set batches. sm_Type m = MessageTypeSnapshot \<and> sm_SnapshotData m \<noteq> [])"
    using T assms(5,6) by (intro listStore_envelope_loop) auto
  then obtain c' batches where r: "run_callbacks ?c1 ?calls = Some c'"
    "buf (send c') = buf (send ?c1) @ batches @ [snapshotEndMsg]" "batches \<noteq> []"
    "\<forall>m \<in> set batches. sm_Type m = MessageTypeSnapshot \<and> sm_SnapshotData m \<noteq> []"
    by blast
  from r(2) have "replies c c' = snapshotStartMsg # batches @ [snapshotEndMsg]"
    by (simp add: replies_def)
  with hs r(1,3,4) show ?thesis by blast
qed



section \<open>Ordering of change events (C1)\<close>



section \<open>Eviction of a slow client (C2)\<close>

text \<open>
  C2. When the broadcast case of the hub finds the queue of a subscribed client full, the
  hub handles the message without panic, removes the client from \<open>clients\<close>, closes its
  channel and enqueues nothing; whatever the hub handles afterwards (broadcasts,
  registrations of other clients, unregistrations), the client stays out of \<open>clients\<close>
  and its queue is never touched again. The premise \<open>hub_ok\<close> holds in every
  reachable state of the server (\<open>hub_ok_reachable\<close>).
\<close>

theorem overflow_unregisters_client:
  assumes "hub_ok h"
    and "client \<in> set (clients h)"
    and "isClientSubscribed (heap h client) message"
    and "nb_send (send (heap h client)) message = WouldBlock"
  shows "\<exists>h1. hub_handle h (Broadcast message) = Some h1 \<and>
           client \<notin> set (clients h1) \<and>
           chan_closed (send (heap h1 client)) \<and>
           buf (send (heap h1 client)) = buf (send (heap h client)) \<and>
           (\<forall>evs h2. Register client \<notin> set evs \<longrightarrow> run h1 evs = Some h2 \<longrightarrow>
                client \<notin> set (clients h2) \<and> heap h2 client = heap h1 client)"
proof -
  from broadcast_loop_total[OF assms(1)] obtain h1 where
    h1: "broadcast_loop (clients h) message h = Some h1" by blast
  from broadcast_loop_evicts[OF h1 assms(2) assms(2) assms(3) assms(4)]
  have ev: "client \<notin> set (clients h1)"
    "heap h1 client = (heap h client)\<lparr> send := (send (heap h client))\<lparr> chan_closed := True \<rparr> \<rparr>"
    by auto
  have later: "\<forall>evs h2. Register client \<notin> set evs \<longrightarrow> run h1 evs = Some h2 \<longrightarrow>
                client \<notin> set (clients h2) \<and> heap h2 client = heap h1 client"
    using run_absent[OF _ ev(1)] by blast
  from h1 ev later show ?thesis by (simp add: hub_broadcast_def)
qed

theorem overflow_unregisters_client_witness:
  "hub_ok slowHub \<and> 0 \<in> set (clients slowHub) \<and>
   isClientSubscribed (heap slowHub 0) (changeMessage (Some eventA1)) \<and>
   nb_send (send (heap slowHub 0)) (changeMessage (Some eventA1)) = WouldBlock \<and>
   (\<exists>h1. hub_handle slowHub (Broadcast (changeMessage (Some eventA1))) = Some h1 \<and>
      0 \<notin> set (clients h1) \<and> chan_closed (send (heap h1 0)) \<and>
      buf (send (heap h1 0)) = buf (send (heap slowHub 0)) \<and>
      (\<exists>h2. run h1 [Broadcast (changeMessage (Some eventA2))] = Some h2 \<and>
         heap h2 0 = heap h1 0 \<and> 0 \<notin> set (clients h2)))"
proof -
  have a: "hub_ok slowHub" by (simp add: hub_ok_def slowHub_def busyClient_def)
  have b: "0 \<in> set (clients slowHub)" by (simp add: slowHub_def)
  have c: "isClientSubscribed (heap slowHub 0) (changeMessage (Some eventA1))"
    by code_simp
  have d: "nb_send (send (heap slowHub 0)) (changeMessage (Some eventA1)) = WouldBlock"
    by (simp add: nb_send_def slowHub_def busyClient_def)
  from overflow_unregisters_client[OF a b c d] obtain h1 where
    h1: "hub_handle slowHub (Broadcast (changeMessage (Some eventA1))) = Some h1"
        "0 \<notin> set (clients h1)" "chan_closed (send (heap h1 0))"
        "buf (send (heap h1 0)) = buf (send (heap slowHub 0))"
    and later: "\<And>evs h2. Register 0 \<notin> set evs \<Longrightarrow> run h1 evs = Some h2 \<Longrightarrow>
                0 \<notin> set (clients h2) \<and> heap h2 0 = heap h1 0"
    by blast
  from h1(1) have "broadcast_loop (clients slowHub) (changeMessage (Some eventA1)) slowHub = Some h1"
    by (simp add: hub_broadcast_def)
  from broadcast_loop_clients[OF this] have "set (clients h1) \<subseteq> {0}"
    by (simp add: slowHub_def)
  with h1(2) have "clients h1 = []" by (cases "clients h1") auto
  then obtain h2 where h2: "run h1 [Broadcast (changeMessage (Some eventA2))] = Some h2"
    by (simp add: hub_broadcast_def)
  from later[OF _ h2] have "0 \<notin> set (clients h2) \<and> heap h2 0 = heap h1 0" by simp
  with a b c d h1 h2 show ?thesis by blast
qed

section \<open>Whitelist enforcement (C3)\<close>

text \<open>
  C3. With a validator configured, a subscribe request that is answered by a successful
  subscribe acknowledgement names a pair the validator accepts; and in every state the
  server reaches, every subscription of every client is for a pair that
  \<open>IsValidSubscription\<close> accepts, hence for a database of the configuration whose
  collection list is empty or contains the collection.
\<close>

theorem whitelist_enforcement:
  assumes "validator ws = Some v"
  shows "(handleSubscribe (Some ws) uuid now c message = Some (c', spawned) \<longrightarrow>
            (\<exists>m \<in> set (replies c c'). sm_Type m = MessageTypeSubscribe \<and> sm_Success m) \<longrightarrow>
            IsValidSubscription (dbConfigs v) (cm_Database message) (cm_Collection message)) \<and>
         (exec (Some ws) initial as = Some s \<longrightarrow>
            (\<forall>(id, sub) \<in> set (subscriptions (heap (hub s) client)).
               IsValidSubscription (dbConfigs v) (sub_Database sub) (sub_Collection sub) \<and>
               (\<exists>cfg \<in> set (dbConfigs v). Name cfg = sub_Database sub \<and>
                  (Collections cfg = [] \<or> sub_Collection sub \<in> set (Collections cfg)))))"
proof (intro conjI impI)
  assume h: "handleSubscribe (Some ws) uuid now c message = Some (c', spawned)"
    and ack: "\<exists>m \<in> set (replies c c'). sm_Type m = MessageTypeSubscribe \<and> sm_Success m"
  show "IsValidSubscription (dbConfigs v) (cm_Database message) (cm_Collection message)"
  proof (rule ccontr)
    assume "\<not> IsValidSubscription (dbConfigs v) (cm_Database message) (cm_Collection message)"
    with assms have "rejectedByValidator (Some ws) (cm_Database message) (cm_Collection message)"
      by (simp add: rejectedByValidator_def)
    from handleSubscribe_rejected[OF this h]
    have "set (replies c c') \<subseteq> {invalidSubscriptionResponse message}"
      by (auto simp: replies_def split: if_splits)
    with ack show False
      by (auto simp: reply_fields MessageType_defs)
  qed
next
  assume e: "exec (Some ws) initial as = Some s"
  have "subscriptions_valid v (heap (hub initial) r)" for r
    by (simp add: initial_def newClient_def subscriptions_valid_def)
  from exec_valid[OF assms e this, of client]
  show "\<forall>(id, sub) \<in> set (subscriptions (heap (hub s) client)).
               IsValidSubscription (dbConfigs v) (sub_Database sub) (sub_Collection sub) \<and>
               (\<exists>cfg \<in> set (dbConfigs v). Name cfg = sub_Database sub \<and>
                  (Collections cfg = [] \<or> sub_Collection sub \<in> set (Collections cfg)))"
    by (auto simp: subscriptions_valid_def list_all_iff dest: IsValidSubscription_whitelisted)
qed

theorem whitelist_enforcement_witness:
  "validator (serverA (listStore [])) = Some (managerA (listStore [])) \<and>
   (\<exists>c'. handleSubscribe (Some (serverA (listStore []))) ''u1'' 0 (newClient ''c1'') subscribeAx = Some (c', None) \<and>
      replies (newClient ''c1'') c' = [subscribeResponse subscribeAx ''u1''] \<and>
      sm_Type (subscribeResponse subscribeAx ''u1'') = MessageTypeSubscribe \<and>
      sm_Success (subscribeResponse subscribeAx ''u1'')) \<and>
   IsValidSubscription (dbConfigs (managerA (listStore []))) (cm_Database subscribeAx) (cm_Collection subscribeAx) \<and>
   (\<exists>s sub. exec (Some (serverA (listStore []))) initial liveRun = Some s \<and>
      subscriptions (heap (hub s) 0) = [(''u1'', sub)] \<and>
      IsValidSubscription (dbConfigs (managerA (listStore []))) (sub_Database sub) (sub_Collection sub))"
proof -
  have v: "validator (serverA (listStore [])) = Some (managerA (listStore []))"
    by (simp add: serverA_def)
  have "case handleSubscribe (Some (serverA (listStore []))) ''u1'' 0 (newClient ''c1'') subscribeAx of
          Some (c', None) \<Rightarrow> replies (newClient ''c1'') c' = [subscribeResponse subscribeAx ''u1''] \<and>
             sm_Type (subscribeResponse subscribeAx ''u1'') = MessageTypeSubscribe \<and>
             sm_Success (subscribeResponse subscribeAx ''u1'')
        | _ \<Rightarrow> False"
    by code_simp
  then obtain c' where h: "handleSubscribe (Some (serverA (listStore []))) ''u1'' 0 (newClient ''c1'') subscribeAx = Some (c', None)"
    and r: "replies (newClient ''c1'') c' = [subscribeResponse subscribeAx ''u1'']"
       "sm_Type (subscribeResponse subscribeAx ''u1'') = MessageTypeSubscribe"
       "sm_Success (subscribeResponse subscribeAx ''u1'')"
    by (auto split: option.splits prod.splits)
  have "case exec (Some (serverA (listStore []))) initial liveRun of
          None \<Rightarrow> False
        | Some s \<Rightarrow> (case subscriptions (heap (hub s) 0) of [(k, sub)] \<Rightarrow> k = ''u1'' | _ \<Rightarrow> False)"
    by code_simp
  then obtain s sub where s: "exec (Some (serverA (listStore []))) initial liveRun = Some s"
    and subs: "subscriptions (heap (hub s) 0) = [(''u1'', sub)]"
    by (auto split: option.splits list.splits prod.splits)
  note th = whitelist_enforcement[OF v, of "''u1''" 0 "newClient ''c1''" subscribeAx c' None liveRun s 0]
  from r have ack: "\<exists>m \<in> set (replies (newClient ''c1'') c'). sm_Type m = MessageTypeSubscribe \<and> sm_Success m"
    by simp
  from th[THEN conjunct1, rule_format, OF h ack]
  have p1: "IsValidSubscription (dbConfigs (managerA (listStore []))) (cm_Database subscribeAx) (cm_Collection subscribeAx)" .
  from th[THEN conjunct2, rule_format, OF s] subs
  have p2: "IsValidSubscription (dbConfigs (managerA (listStore []))) (sub_Database sub) (sub_Collection sub)"
    by simp
  from v h r p1 s subs p2 show ?thesis by blast
qed

section \<open>The snapshot envelope on an empty collection (C4)\<close>

text \<open>
  C4. A client subscribes with \<open>include_snapshot\<close> to a whitelisted collection that
  holds no document. The count is 0, the loop of \<open>StreamSnapshot\<close> is not entered, the
  callback is never invoked, and the only place that sends \<open>snapshot_end\<close> is the
  callback: the client gets the acknowledgement and \<open>snapshot_start\<close>, and nothing
  after it.
\<close>

theorem empty_snapshot_has_no_end:
  "session (Some (serverA (listStore []))) ''u1'' 0 (newClient ''c1'') subscribeSnapshot =
     Some [subscribeResponse subscribeSnapshot ''u1'', snapshotStartMsg]"
  by code_simp

section \<open>Batch numbers and remaining counts (C5)\<close>



section \<open>A snapshot limit of zero (C6)\<close>

text \<open>
  C6, as the code has it. A \<open>snapshot_limit\<close> of zero (or below, or absent from the
  request, which decodes to zero) is replaced by the default 10000: the snapshot is the one
  a request with \<open>snapshot_limit = 10000\<close> gets.
\<close>

theorem zero_limit_is_default:
  assumes "SnapshotLimit opts \<le> 0"
  shows "effLimit opts = 10000 \<and>
         StreamSnapshot st collection (Some opts) =
           StreamSnapshot st collection (Some (opts\<lparr> SnapshotLimit := 10000 \<rparr>))"
proof -
  have same: "stream_loop st collection opts skip batchNum remaining =
        stream_loop st collection (opts\<lparr> SnapshotLimit := 10000 \<rparr>) skip batchNum remaining"
    for skip batchNum remaining
  proof (induction st collection opts skip batchNum remaining rule: stream_loop.induct)
    case (1 st collection snapOpts skip batchNum remaining)
    show ?case
      apply (subst stream_loop.simps)
      apply (subst (2) stream_loop.simps)
      using 1
      apply (auto simp: effFilter_def effBatchSize_def split: sum.splits)
      done
  qed
  have total: "actualTotal totalCount (opts\<lparr> SnapshotLimit := 10000 \<rparr>) = actualTotal totalCount opts"
    for totalCount
    using assms by (simp add: actualTotal_def effLimit_def)
  have "StreamSnapshot st collection (Some (opts\<lparr> SnapshotLimit := 10000 \<rparr>)) =
      StreamSnapshot st collection (Some opts)"
    by (simp add: StreamSnapshot_def effFilter_def total same[symmetric] split: sum.splits)
  with assms show ?thesis by (simp add: effLimit_def)
qed

theorem zero_limit_is_default_witness:
  "SnapshotLimit batch2 \<le> 0 \<and> effLimit batch2 = 10000 \<and>
   StreamSnapshot (listStore [doc1, doc2, doc3]) ''x'' (Some batch2) =
     StreamSnapshot (listStore [doc1, doc2, doc3]) ''x'' (Some (batch2\<lparr> SnapshotLimit := 10000 \<rparr>)) \<and>
   StreamSnapshot (listStore [doc1, doc2, doc3]) ''x'' (Some (batch2\<lparr> SnapshotLimit := 10000 \<rparr>)) =
     [([doc1, doc2], 1, 1, None), ([doc3], 2, 0, None)]"
proof -
  have l: "SnapshotLimit batch2 \<le> 0" by (simp add: batch2_def)
  have "StreamSnapshot (listStore [doc1, doc2, doc3]) ''x'' (Some (batch2\<lparr> SnapshotLimit := 10000 \<rparr>)) =
     [([doc1, doc2], 1, 1, None), ([doc3], 2, 0, None)]" by code_simp
  with zero_limit_is_default[OF l, of "listStore [doc1, doc2, doc3]" "''x''"] l show ?thesis by simp
qed

text \<open>With \<open>snapshot_limit = 0\<close> and three documents, both batches are sent.\<close>

theorem zero_limit_streams_batches:
  "SnapshotLimit batch2 = 0 \<and> IncludeSnapshot batch2 \<and>
   cm_SnapshotOptions subscribeSnapshot = Some batch2 \<and>
   session (Some (serverA (listStore [doc1, doc2, doc3]))) ''u1'' 0 (newClient ''c1'') subscribeSnapshot =
     Some [subscribeResponse subscribeSnapshot ''u1'', snapshotStartMsg,
           snapshotBatchMsg [doc1, doc2] 1 1, snapshotBatchMsg [doc3] 2 0, snapshotEndMsg] \<and>
   sm_Type (snapshotBatchMsg [doc1, doc2] 1 1) = ''snapshot''"
  by code_simp

section \<open>Rejected subscriptions (C7)\<close>

text \<open>
  C7, as the code has it. For a subscribe request whose pair the validator rejects, the
  handler creates no subscription and starts no snapshot; if the outbound queue of the
  client has room it enqueues exactly one message, of type \<open>error\<close> with error code 1,
  the request id of the request and a text that contains \<open>Invalid subscription\<close>; if
  the queue is full it enqueues nothing.
\<close>

theorem invalid_subscription_rejected:
  assumes "rejectedByValidator wsServer (cm_Database message) (cm_Collection message)"
    and "\<not> chan_closed (send c)"
  shows "\<exists>c'. handleSubscribe wsServer uuid now c message = Some (c', None) \<and>
           subscriptions c' = subscriptions c \<and>
           replies c c' = (if length (buf (send c)) < cap (send c)
                           then [invalidSubscriptionResponse message] else []) \<and>
           sm_Type (invalidSubscriptionResponse message) = ''error'' \<and>
           sm_ErrorCode (invalidSubscriptionResponse message) = 1 \<and>
           sm_RequestID (invalidSubscriptionResponse message) = cm_RequestID message \<and>
           sublist ''Invalid subscription'' (sm_Error (invalidSubscriptionResponse message))"
proof -
  from assms(2) have "\<exists>ok c'. enqueue c (invalidSubscriptionResponse message) = Some (ok, c')"
    by (simp add: enqueue_eq_Some)
  then obtain ok c' where e: "enqueue c (invalidSubscriptionResponse message) = Some (ok, c')"
    by blast
  with assms(1) have h: "handleSubscribe wsServer uuid now c message = Some (c', None)"
    by (simp add: handleSubscribe_def)
  from handleSubscribe_rejected[OF assms(1) h]
  have "subscriptions c' = subscriptions c"
    "replies c c' = (if length (buf (send c)) < cap (send c)
                           then [invalidSubscriptionResponse message] else [])"
    by (auto simp: replies_def)
  moreover have "prefix ''Invalid subscription'' (sm_Error (invalidSubscriptionResponse message))"
    by (simp add: reply_fields invalidSubscriptionText_def)
  then have "sublist ''Invalid subscription'' (sm_Error (invalidSubscriptionResponse message))"
    by (rule prefix_imp_sublist)
  ultimately show ?thesis using h by (simp add: reply_fields MessageType_defs)
qed

theorem invalid_subscription_rejected_witness:
  "rejectedByValidator (Some (serverA (listStore []))) (cm_Database subscribeBy) (cm_Collection subscribeBy) \<and>
   \<not> chan_closed (send (newClient ''c1'')) \<and>
   (\<exists>c'. handleSubscribe (Some (serverA (listStore []))) ''u1'' 0 (newClient ''c1'') subscribeBy = Some (c', None) \<and>
      subscriptions c' = [] \<and>
      replies (newClient ''c1'') c' = [invalidSubscriptionResponse subscribeBy] \<and>
      sm_RequestID (invalidSubscriptionResponse subscribeBy) = ''r2'')"
proof -
  have r: "rejectedByValidator (Some (serverA (listStore []))) (cm_Database subscribeBy) (cm_Collection subscribeBy)"
    by code_simp
  have o: "\<not> chan_closed (send (newClient ''c1''))" by (simp add: newClient_def make_chan_def)
  from invalid_subscription_rejected[OF r o, of "''u1''" 0] r o show ?thesis
    by (auto simp: newClient_def make_chan_def subscribeBy_def)
qed

text \<open>A client with a full queue sends a request the validator rejects: the queue is
  unchanged and holds no error message.\<close>

theorem invalid_subscription_error_dropped:
  "rejectedByValidator (Some (serverA (listStore []))) (cm_Database subscribeBy) (cm_Collection subscribeBy) \<and>
   handleSubscribe (Some (serverA (listStore []))) ''u1'' 0 (busyClient 1024) subscribeBy =
     Some (busyClient 1024, None) \<and>
   replies (busyClient 1024) (busyClient 1024) = [] \<and>
   filter (\<lambda>m. sm_Type m = MessageTypeError) (buf (send (busyClient 1024))) = []"
proof -
  have r: "rejectedByValidator (Some (serverA (listStore []))) (cm_Database subscribeBy) (cm_Collection subscribeBy)"
    by code_simp
  have full: "enqueue (busyClient 1024) m = Some (False, busyClient 1024)" for m
    by (simp add: enqueue_def nb_send_def busyClient_def)
  from r have "handleSubscribe (Some (serverA (listStore []))) ''u1'' 0 (busyClient 1024) subscribeBy =
     Some (busyClient 1024, None)"
    by (simp add: handleSubscribe_def full)
  moreover have "filter (\<lambda>m. sm_Type m = MessageTypeError) (buf (send (busyClient 1024))) = []"
    by (simp add: busyClient_def pongMsg_def zeroMessage_def MessageType_defs)
  ultimately show ?thesis using r by (simp add: replies_def)
qed

section \<open>Request ids of replies (C8)\<close>

text \<open>
  C8, as the code has it. Every message a request handler enqueues for a request
  (subscribe and unsubscribe acknowledgements, pong, health reply, the error for a
  rejected subscription) carries the request id of the request, except \<open>snapshot_start\<close>;
  the messages of the snapshot callback (batches, \<open>snapshot_end\<close> and snapshot errors)
  carry no request id.
\<close>

theorem replies_echo_requestId:
  "(handleMessage wsServer uuid now timestamp c message = Some (c', spawned) \<longrightarrow>
      (\<forall>m \<in> set (replies c c'). m = snapshotStartMsg \<or> sm_RequestID m = cm_RequestID message)) \<and>
   (callback c call = Some c'' \<longrightarrow> (\<forall>m \<in> set (replies c c''). sm_RequestID m = []))"
proof (intro conjI impI)
  assume "handleMessage wsServer uuid now timestamp c message = Some (c', spawned)"
  from handleMessage_buf[OF this]
  show "\<forall>m \<in> set (replies c c'). m = snapshotStartMsg \<or> sm_RequestID m = cm_RequestID message"
    by (auto simp: replies_def)
next
  assume "callback c call = Some c''"
  from callback_buf[OF this] show "\<forall>m \<in> set (replies c c''). sm_RequestID m = []"
    by (auto simp: replies_def)
qed

theorem replies_echo_requestId_witness:
  "\<exists>c' c''. handleMessage liveServer ''u1'' 0 ''t0'' (newClient ''c1'') pingMsg = Some (c', None) \<and>
      replies (newClient ''c1'') c' =
        [zeroMessage\<lparr> sm_Type := MessageTypePong, sm_RequestID := ''r1'' \<rparr>] \<and>
      cm_RequestID pingMsg = ''r1'' \<and>
      callback (newClient ''c1'') ([], 0, 0, Some ''connection reset'') = Some c'' \<and>
      replies (newClient ''c1'') c'' = [snapshotErrorMsg ''connection reset''] \<and>
      sm_RequestID (hd (replies (newClient ''c1'') c')) = cm_RequestID pingMsg \<and>
      sm_RequestID (hd (replies (newClient ''c1'') c'')) = []"
proof -
  have "case handleMessage liveServer ''u1'' 0 ''t0'' (newClient ''c1'') pingMsg of
          Some (c', None) \<Rightarrow> replies (newClient ''c1'') c' =
             [zeroMessage\<lparr> sm_Type := MessageTypePong, sm_RequestID := ''r1'' \<rparr>] \<and>
             cm_RequestID pingMsg = ''r1''
        | _ \<Rightarrow> False"
    by code_simp
  then obtain c' where h: "handleMessage liveServer ''u1'' 0 ''t0'' (newClient ''c1'') pingMsg = Some (c', None)"
    and r: "replies (newClient ''c1'') c' = [zeroMessage\<lparr> sm_Type := MessageTypePong, sm_RequestID := ''r1'' \<rparr>]"
      "cm_RequestID pingMsg = ''r1''"
    by (auto split: option.splits prod.splits)
  have "case callback (newClient ''c1'') ([], 0, 0, Some ''connection reset'') of
          Some c'' \<Rightarrow> replies (newClient ''c1'') c'' = [snapshotErrorMsg ''connection reset'']
        | None \<Rightarrow> False"
    by code_simp
  then obtain c'' where cb: "callback (newClient ''c1'') ([], 0, 0, Some ''connection reset'') = Some c''"
    and r2: "replies (newClient ''c1'') c'' = [snapshotErrorMsg ''connection reset'']"
    by (auto split: option.splits)
  note th = replies_echo_requestId[of liveServer "''u1''" 0 "''t0''" "newClient ''c1''" pingMsg c' None
      "([], 0, 0, Some ''connection reset'')" c'']
  from th[THEN conjunct1, rule_format, OF h, of "hd (replies (newClient ''c1'') c')"] r
  have p1: "sm_RequestID (hd (replies (newClient ''c1'') c')) = cm_RequestID pingMsg"
    by (simp add: snapshotStartMsg_def zeroMessage_def MessageType_defs)
  from th[THEN conjunct2, rule_format, OF cb, of "hd (replies (newClient ''c1'') c'')"] r2
  have p2: "sm_RequestID (hd (replies (newClient ''c1'') c'')) = []" by simp
  from h r cb r2 p1 p2 show ?thesis by blast
qed

text \<open>A subscribe request with request id \<open>r4\<close> starts a snapshot on a store that
  fails: the error message of the session has an empty request id.\<close>

theorem snapshot_error_without_requestId:
  "session (Some (serverA failingStore)) ''u1'' 0 (newClient ''c1'') subscribeSnapshot =
     Some [subscribeResponse subscribeSnapshot ''u1'', snapshotStartMsg,
           snapshotErrorMsg ''failed to count documents: connection reset''] \<and>
   sm_Type (snapshotErrorMsg ''failed to count documents: connection reset'') = ''error'' \<and>
   sm_RequestID (snapshotErrorMsg ''failed to count documents: connection reset'') = [] \<and>
   cm_RequestID subscribeSnapshot = ''r4''"
  by code_simp

section \<open>A full queue during a snapshot (C9)\<close>

text \<open>
  C9, as the code has it. When \<open>snapshot_start\<close> cannot be enqueued, \<open>handleSnapshot\<close>
  returns without starting the task and without enqueuing anything. When a batch cannot be
  enqueued, the callback returns with the client unchanged (no error message is enqueued),
  and the task goes on to its next callback invocation.
\<close>

theorem snapshot_enqueue_failure_drops:
  "(snapshotStreamer ws = Some streamer \<longrightarrow> nb_send (send c) snapshotStartMsg = WouldBlock \<longrightarrow>
      handleSnapshot (Some ws) c subscription = Some (c, None)) \<and>
   (i < length (tasks s) \<longrightarrow> tasks s ! i = (client, (batch, batchNum, remaining, None) # calls) \<longrightarrow>
      batch \<noteq> [] \<longrightarrow>
      nb_send (send (heap (hub s) client)) (snapshotBatchMsg batch batchNum remaining) = WouldBlock \<longrightarrow>
      callback (heap (hub s) client) (batch, batchNum, remaining, None) = Some (heap (hub s) client) \<and>
      perform wsServer s (SnapshotCall i) = Some (s\<lparr> tasks := (tasks s)[i := (client, calls)] \<rparr>))"
proof (intro conjI impI)
  assume "snapshotStreamer ws = Some streamer" "nb_send (send c) snapshotStartMsg = WouldBlock"
  then show "handleSnapshot (Some ws) c subscription = Some (c, None)"
    by (simp add: handleSnapshot_def enqueue_def)
next
  assume a: "i < length (tasks s)" "tasks s ! i = (client, (batch, batchNum, remaining, None) # calls)"
    "batch \<noteq> []"
    "nb_send (send (heap (hub s) client)) (snapshotBatchMsg batch batchNum remaining) = WouldBlock"
  then show cb: "callback (heap (hub s) client) (batch, batchNum, remaining, None) = Some (heap (hub s) client)"
    by (simp add: enqueue_def)
  have "set_client s client (heap (hub s) client) = s"
    by (simp add: set_client_def)
  with a(1,2) cb show "perform wsServer s (SnapshotCall i) = Some (s\<lparr> tasks := (tasks s)[i := (client, calls)] \<rparr>)"
    by (simp del: callback.simps)
qed

theorem snapshot_enqueue_failure_drops_witness:
  "snapshotStreamer (serverA (listStore [doc1, doc2, doc3])) = Some (managerA (listStore [doc1, doc2, doc3])) \<and>
   nb_send (send (busyClient 1024)) snapshotStartMsg = WouldBlock \<and>
   handleSnapshot (Some (serverA (listStore [doc1, doc2, doc3]))) (busyClient 1024) subscriptionSnapshot =
     Some (busyClient 1024, None) \<and>
   0 < length (tasks stalledSystem) \<and>
   tasks stalledSystem ! 0 = (0, ([doc1, doc2], 1, 1, None) # [([doc3], 2, 0, None)]) \<and>
   nb_send (send (heap (hub stalledSystem) 0)) (snapshotBatchMsg [doc1, doc2] 1 1) = WouldBlock \<and>
   callback (heap (hub stalledSystem) 0) ([doc1, doc2], 1, 1, None) = Some (heap (hub stalledSystem) 0) \<and>
   perform liveServer stalledSystem (SnapshotCall 0) =
     Some (stalledSystem\<lparr> tasks := (tasks stalledSystem)[0 := (0, [([doc3], 2, 0, None)])] \<rparr>)"
proof -
  have a: "snapshotStreamer (serverA (listStore [doc1, doc2, doc3])) = Some (managerA (listStore [doc1, doc2, doc3]))"
    by (simp add: serverA_def)
  have b: "nb_send (send (busyClient 1024)) m = WouldBlock" for m
    by (simp add: nb_send_def busyClient_def)
  have c: "0 < length (tasks stalledSystem)"
    "tasks stalledSystem ! 0 = (0, ([doc1, doc2], 1, 1, None) # [([doc3], 2, 0, None)])"
    "heap (hub stalledSystem) 0 = busyClient 1024"
    by (simp_all add: stalledSystem_def)
  have d: "[doc1, doc2] \<noteq> []" by simp
  note th = snapshot_enqueue_failure_drops[of "serverA (listStore [doc1, doc2, doc3])"
      "managerA (listStore [doc1, doc2, doc3])" "busyClient 1024" subscriptionSnapshot
      0 stalledSystem 0 "[doc1, doc2]" 1 1 "[([doc3], 2, 0, None)]" liveServer]
  from th[THEN conjunct1, rule_format, OF a b]
  have p1: "handleSnapshot (Some (serverA (listStore [doc1, doc2, doc3]))) (busyClient 1024) subscriptionSnapshot =
     Some (busyClient 1024, None)" .
  have e: "nb_send (send (heap (hub stalledSystem) 0)) (snapshotBatchMsg [doc1, doc2] 1 1) = WouldBlock"
    by (simp only: c(3) b)
  from th[THEN conjunct2, rule_format, OF c(1) c(2) d e]
  have p2: "callback (heap (hub stalledSystem) 0) ([doc1, doc2], 1, 1, None) = Some (heap (hub stalledSystem) 0)"
    "perform liveServer stalledSystem (SnapshotCall 0) =
     Some (stalledSystem\<lparr> tasks := (tasks stalledSystem)[0 := (0, [([doc3], 2, 0, None)])] \<rparr>)"
    by blast+
  from a b[of snapshotStartMsg] p1 c(1,2) e p2 show ?thesis by (simp only: simp_thms)
qed

text \<open>
  A client with 1022 unwritten replies subscribes with a snapshot of three documents in
  batches of two. The acknowledgement and \<open>snapshot_start\<close> fill the queue, the first
  batch is dropped, the writer writes two messages, and the second batch and
  \<open>snapshot_end\<close> are enqueued: no error message, and delivery after the failure.
\<close>

theorem snapshot_continues_after_overflow:
  "case exec (Some (serverA (listStore [doc1, doc2, doc3]))) busySystem overflowRun1 of
     None \<Rightarrow> False
   | Some s1 \<Rightarrow>
       tasks s1 = [(0, [([doc1, doc2], 1, 1, None), ([doc3], 2, 0, None)])] \<and>
       nb_send (send (heap (hub s1) 0)) (snapshotBatchMsg [doc1, doc2] 1 1) = WouldBlock \<and>
       (case exec (Some (serverA (listStore [doc1, doc2, doc3]))) s1 overflowRun2 of
          None \<Rightarrow> False
        | Some s2 \<Rightarrow>
            buf (send (heap (hub s2) 0)) =
              replicate 1020 pongMsg @
              [subscribeResponse subscribeSnapshot ''u1'', snapshotStartMsg,
               snapshotBatchMsg [doc3] 2 0, snapshotEndMsg] \<and>
            received s2 0 = [pongMsg, pongMsg] \<and>
            tasks s2 = [(0, [])])"
proof -
  let ?srv = "Some (serverA (listStore [doc1, doc2, doc3]))"
  let ?q1 = "replicate 1022 pongMsg @ [subscribeResponse subscribeSnapshot ''u1'', snapshotStartMsg]"
  let ?q2 = "replicate 1020 pongMsg @ [subscribeResponse subscribeSnapshot ''u1'', snapshotStartMsg]"
  define s1 where "s1 = (set_client busySystem 0 (queuedClient ?q1))
                     \<lparr> tasks := [(0, [([doc1, doc2], 1, 1, None), ([doc3], 2, 0, None)])] \<rparr>"
  have e1: "exec ?srv busySystem overflowRun1 = Some s1"
    by (simp add: overflowRun1_def busy_subscribe s1_def busySystem_def initial_def)
  have h1: "heap (hub s1) 0 = queuedClient ?q1" "tasks s1 = [(0, [([doc1, doc2], 1, 1, None), ([doc3], 2, 0, None)])]"
    by (simp_all add: s1_def)
  have full: "nb_send (send (heap (hub s1) 0)) (snapshotBatchMsg [doc1, doc2] 1 1) = WouldBlock"
    by (simp add: h1 nb_send_def queuedClient_def)
  define s2 where "s2 = s1\<lparr> tasks := [(0, [([doc3], 2, 0, None)])] \<rparr>"
  have cb1: "callback (queuedClient ?q1) ([doc1, doc2], 1, 1, None) = Some (queuedClient ?q1)"
    by (rule callback_full_queue) simp_all
  have same: "set_client s1 0 (queuedClient ?q1) = s1"
    by (simp add: s1_def set_client_def)
  have p2: "perform ?srv s1 (SnapshotCall 0) = Some s2"
    by (simp add: h1 cb1 same s2_def del: callback.simps)
  define s3 where "s3 = (set_client s2 0 (queuedClient (pongMsg # ?q2)))\<lparr> received := (received s2)(0 := [pongMsg]) \<rparr>"
  have p3: "perform ?srv s2 (Write 0) = Some s3"
    by (simp add: s2_def h1 queuedClient_def replicate_1022 s3_def s1_def busySystem_def initial_def)
  define s4 where "s4 = (set_client s3 0 (queuedClient ?q2))\<lparr> received := (received s3)(0 := [pongMsg, pongMsg]) \<rparr>"
  have p4: "perform ?srv s3 (Write 0) = Some s4"
    by (simp add: s3_def queuedClient_def s4_def)
  define s5 where "s5 = (set_client s4 0 (queuedClient (?q2 @ [snapshotBatchMsg [doc3] 2 0, snapshotEndMsg])))
                          \<lparr> tasks := [(0, [])] \<rparr>"
  have t4: "tasks s4 = [(0, [([doc3], 2, 0, None)])]" "heap (hub s4) 0 = queuedClient ?q2"
    by (simp_all add: s4_def s3_def s2_def)
  have cb2: "callback (queuedClient ?q2) ([doc3], 2, 0, None) =
      Some (queuedClient (?q2 @ [snapshotBatchMsg [doc3] 2 0, snapshotEndMsg]))"
    by (rule callback_last_batch) simp
  have p5: "perform ?srv s4 (SnapshotCall 0) = Some s5"
    by (simp add: t4 cb2 s5_def del: callback.simps)
  have e2: "exec ?srv s1 overflowRun2 = Some s5"
    by (simp add: overflowRun2_def p2 p3 p4 p5 del: perform.simps)
  have f5: "buf (send (heap (hub s5) 0)) =
              replicate 1020 pongMsg @
              [subscribeResponse subscribeSnapshot ''u1'', snapshotStartMsg,
               snapshotBatchMsg [doc3] 2 0, snapshotEndMsg]"
    "received s5 0 = [pongMsg, pongMsg]" "tasks s5 = [(0, [])]"
    by (simp_all add: s5_def s4_def queuedClient_def)
  from e1 h1(2) full e2 f5 show ?thesis by simp
qed

section \<open>What the broadcast path delivers (C10)\<close>



end
